theory Spec2Isabelle
  imports Complex_Main "HOL-Library.Multiset" "HOL-Library.List_Lexorder"
    "HOL-Library.Product_Lexorder" "HOL-Library.Char_ord"
begin

section \<open>The KPI dashboard script\<close>

text \<open>
  The script is one linear pipeline: a source selector that yields a DataFrame or nothing,
  a memoised coercion of the time column (\<open>get_data\<close>), the KPI computation
  (\<open>total\<close>, \<open>mean\<close>, \<open>latest\<close>, \<open>prev\<close>, \<open>delta\<close>), the ranking
  (\<open>agg\<close>); the report (\<open>generate_report\<close>) hands the table and the summary to
  the spreadsheet writer and is not modelled. The pandas, Streamlit and SQLAlchemy
  calls are modelled by what their documentation fixes for the defaults the script uses:
  \<open>sum\<close> and \<open>mean\<close> skip missing values, \<open>groupby\<close> drops rows with a missing key
  and orders the groups by key, \<open>sort_values\<close> uses the default \<open>kind='quicksort'\<close>,
  which returns a sorted permutation with missing keys last and is not stable.
  Finite float64 arithmetic is idealised as exact; int64 arithmetic wraps around; a
  missing value (NaN, NaT, None) is \<open>Null\<close>.
\<close>

subsection \<open>Data model\<close>

text \<open>A cell of a table. \<open>Int64\<close> is a value of an integer column, \<open>Num\<close>, \<open>PlusInf\<close>
  and \<open>MinusInf\<close> are values of a float column, \<open>Null\<close> is a missing value (NaN, NaT,
  None).\<close>

datatype cell = Null | Int64 int | Num rat | PlusInf | MinusInf | Text string | Time int

record dataframe =
  columns :: "string list"
  body :: "cell list list"

datatype error = IndexError | KeyError | TypeError | ParseError | EngineError | QueryError

text \<open>\<open>row[c]\<close>: the cell of a row under a column label; a label that is not a column
  raises \<open>KeyError\<close>.\<close>

definition getitem :: "string list \<Rightarrow> cell list \<Rightarrow> string \<Rightarrow> error + cell" where
  "getitem cols r c = (case map_of (zip cols r) c of None \<Rightarrow> Inl KeyError | Some v \<Rightarrow> Inr v)"

subsection \<open>Numbers\<close>

text \<open>The value of a numeric scalar: NaN, the infinities, or a finite value. Finite
  float64 arithmetic is idealised as exact arithmetic on rationals; an int64 value is the
  finite value of that integer, and the operations on an integer column wrap around
  (\<open>wrap64\<close>).\<close>

datatype number = NaN | NegInf | Fin rat | PosInf

text \<open>Float addition.\<close>

instantiation number :: comm_monoid_add
begin

definition zero_number :: number where
  "zero_number = Fin 0"

fun plus_number :: "number \<Rightarrow> number \<Rightarrow> number" where
  "plus_number NaN b = NaN"
| "plus_number a NaN = NaN"
| "plus_number PosInf NegInf = NaN"
| "plus_number NegInf PosInf = NaN"
| "plus_number PosInf b = PosInf"
| "plus_number a PosInf = PosInf"
| "plus_number NegInf b = NegInf"
| "plus_number a NegInf = NegInf"
| "plus_number (Fin x) (Fin y) = Fin (x + y)"

instance
proof
  fix x y z :: number
  show "0 + x = x" by (cases x) (simp_all add: zero_number_def)
  show "x + y = y + x" by (cases x; cases y) simp_all
  show "x + y + z = x + (y + z)" by (cases x; cases y; cases z) simp_all
qed

end

text \<open>The order in which \<open>sort_values\<close> arranges numbers: by value, and NaN below all of
  them, so that a descending sort has NaN last (\<open>na_position='last'\<close>).\<close>

fun rank :: "number \<Rightarrow> nat \<times> rat" where
  "rank NaN = (0, 0)"
| "rank NegInf = (1, 0)"
| "rank (Fin x) = (2, x)"
| "rank PosInf = (3, 0)"

instantiation number :: linorder
begin

definition less_eq_number :: "number \<Rightarrow> number \<Rightarrow> bool" where
  "less_eq_number a b = (rank a \<le> rank b)"

definition less_number :: "number \<Rightarrow> number \<Rightarrow> bool" where
  "less_number a b = (rank a < rank b)"

instance
proof
  fix a b c :: number
  show "(a < b) = (a \<le> b \<and> \<not> b \<le> a)" by (auto simp: less_number_def less_eq_number_def)
  show "a \<le> a" by (simp add: less_eq_number_def)
  show "a \<le> b \<Longrightarrow> b \<le> c \<Longrightarrow> a \<le> c" by (simp add: less_eq_number_def)
  show "a \<le> b \<Longrightarrow> b \<le> a \<Longrightarrow> a = b"
    by (cases a; cases b) (simp_all add: less_eq_number_def)
  show "a \<le> b \<or> b \<le> a" by (auto simp: less_eq_number_def)
qed

end

text \<open>Float subtraction: \<open>inf - inf\<close> is NaN.\<close>

fun minus_number :: "number \<Rightarrow> number \<Rightarrow> number" where
  "minus_number NaN b = NaN"
| "minus_number a NaN = NaN"
| "minus_number PosInf PosInf = NaN"
| "minus_number NegInf NegInf = NaN"
| "minus_number PosInf b = PosInf"
| "minus_number a NegInf = PosInf"
| "minus_number NegInf b = NegInf"
| "minus_number a PosInf = NegInf"
| "minus_number (Fin x) (Fin y) = Fin (x - y)"

text \<open>Python's \<open>==\<close> on floats: NaN is equal to nothing.\<close>

definition num_eq :: "number \<Rightarrow> number \<Rightarrow> bool" where
  "num_eq a b = (a \<noteq> NaN \<and> a = b)"

fun is_finite :: "number \<Rightarrow> bool" where
  "is_finite (Fin x) = True"
| "is_finite a = False"

text \<open>The int64 value an integer wraps around to, and its range.\<close>

definition wrap64 :: "int \<Rightarrow> int" where
  "wrap64 i = (i + 2 ^ 63) mod 2 ^ 64 - 2 ^ 63"

definition fits_int64 :: "int \<Rightarrow> bool" where
  "fits_int64 i = (- (2 ^ 63) \<le> i \<and> i < 2 ^ 63)"

fun int_of :: "number \<Rightarrow> int" where
  "int_of (Fin x) = \<lfloor>x\<rfloor>"
| "int_of a = 0"

fun wrap_number :: "number \<Rightarrow> number" where
  "wrap_number (Fin x) = Fin (of_int (wrap64 \<lfloor>x\<rfloor>))"
| "wrap_number a = a"

text \<open>Subtraction of two scalars of a column: int64 values wrap around.\<close>

definition number_sub :: "bool \<Rightarrow> number \<Rightarrow> number \<Rightarrow> number" where
  "number_sub int64 a b = (if int64 then wrap_number (minus_number a b) else minus_number a b)"

text \<open>A cell of a numeric column as a number, and the cells a numeric column may hold.\<close>

fun as_number :: "cell \<Rightarrow> number" where
  "as_number (Int64 i) = Fin (of_int i)"
| "as_number (Num x) = Fin x"
| "as_number PlusInf = PosInf"
| "as_number MinusInf = NegInf"
| "as_number c = NaN"

fun numeric_cell :: "cell \<Rightarrow> bool" where
  "numeric_cell (Text s) = False"
| "numeric_cell (Time t) = False"
| "numeric_cell c = True"

fun int64_cell :: "cell \<Rightarrow> bool" where
  "int64_cell (Int64 i) = True"
| "int64_cell c = False"

text \<open>\<open>df[c]\<close> as a list of raw cells and as a list of numbers; whether the column is
  numeric (\<open>sum\<close> and \<open>mean\<close> raise \<open>TypeError\<close> on timestamps and on text), and
  whether its dtype is int64 (every cell an integer; an integer column with a missing value
  is a float column).\<close>

definition column_cells :: "dataframe \<Rightarrow> string \<Rightarrow> cell list" where
  "column_cells d c = map (\<lambda>r. case getitem (columns d) r c of Inl _ \<Rightarrow> Null | Inr v \<Rightarrow> v) (body d)"

definition column_numbers :: "dataframe \<Rightarrow> string \<Rightarrow> number list" where
  "column_numbers d c = map as_number (column_cells d c)"

definition numeric_column :: "dataframe \<Rightarrow> string \<Rightarrow> bool" where
  "numeric_column d c = list_all numeric_cell (column_cells d c)"

definition int64_column :: "dataframe \<Rightarrow> string \<Rightarrow> bool" where
  "int64_column d c = list_all int64_cell (column_cells d c)"

text \<open>\<open>skipna=True\<close>: the values that are not missing.\<close>

definition dropna :: "number list \<Rightarrow> number list" where
  "dropna vs = filter (\<lambda>v. v \<noteq> NaN) vs"

text \<open>The sum of an array: accumulated in int64, wrapping around at every addition, for
  an integer column; accumulated in float64 otherwise.\<close>

definition int64_sum :: "number list \<Rightarrow> number" where
  "int64_sum xs = Fin (of_int (foldl (\<lambda>acc x. wrap64 (acc + int_of x)) 0 xs))"

definition float_sum :: "number list \<Rightarrow> number" where
  "float_sum xs = foldl (+) (Fin 0) xs"

definition number_sum :: "bool \<Rightarrow> number list \<Rightarrow> number" where
  "number_sum int64 xs = (if int64 then int64_sum xs else float_sum xs)"

text \<open>\<open>Series.sum()\<close> (\<open>skipna=True\<close>, \<open>min_count=0\<close>) on a column of the given dtype:
  the sum of the values that are not missing, 0 when there is none.\<close>

definition series_sum :: "bool \<Rightarrow> number list \<Rightarrow> number" where
  "series_sum int64 vs = number_sum int64 (dropna vs)"

text \<open>\<open>Series.count()\<close>: the number of values that are not missing.\<close>

definition series_count :: "number list \<Rightarrow> nat" where
  "series_count vs = length (dropna vs)"

text \<open>\<open>Series.mean()\<close> (\<open>skipna=True\<close>): the values that are not missing are summed in
  float64, whatever the dtype of the column, and the sum is divided by their count; NaN
  when there is none.\<close>

fun div_count :: "number \<Rightarrow> nat \<Rightarrow> number" where
  "div_count (Fin x) n = Fin (x / of_nat n)"
| "div_count a n = a"

definition series_mean :: "number list \<Rightarrow> number" where
  "series_mean vs =
     (if series_count vs = 0 then NaN else div_count (float_sum (dropna vs)) (series_count vs))"

text \<open>\<open>iloc[i]\<close>: positional indexing, negative positions count from the end, a
  position out of range raises \<open>IndexError\<close>.\<close>

definition iloc :: "'a list \<Rightarrow> int \<Rightarrow> error + 'a" where
  "iloc xs i =
     (if 0 \<le> i \<and> i < int (length xs) then Inr (xs ! nat i)
      else if i < 0 \<and> - i \<le> int (length xs) then Inr (xs ! nat (int (length xs) + i))
      else Inl IndexError)"

subsection \<open>Sorting\<close>

text \<open>Order of the time values in \<open>sort_values\<close>: NaT sorts last (\<open>na_position='last'\<close>).\<close>

fun time_key :: "cell \<Rightarrow> int option" where
  "time_key (Time t) = Some t"
| "time_key _ = None"

fun time_le :: "int option \<Rightarrow> int option \<Rightarrow> bool" where
  "time_le (Some a) (Some b) = (a \<le> b)"
| "time_le _ None = True"
| "time_le None (Some b) = False"

text \<open>What every result \<open>ys\<close> of \<open>sort_values\<close> on \<open>xs\<close> satisfies, whatever the
  \<open>kind\<close> of sort: the same rows, in an order that is sorted for the key.\<close>

definition sort_values_result :: "('k \<Rightarrow> 'k \<Rightarrow> bool) \<Rightarrow> ('r \<Rightarrow> 'k) \<Rightarrow> 'r list \<Rightarrow> 'r list \<Rightarrow> bool" where
  "sort_values_result le key xs ys =
     (mset ys = mset xs \<and> sorted_wrt (\<lambda>a b. le (key a) (key b)) ys)"

subsection \<open>Time coercion and its memoisation (\<open>get_data\<close>)\<close>

text \<open>\<open>pd.to_datetime\<close> on one value: a missing value becomes NaT, a timestamp stays, a
  finite number is read as an offset from the epoch, an infinity raises, a text is parsed
  by \<open>parse\<close> (the date parser of the library, a parameter) and raises when it cannot be
  parsed.\<close>

fun to_datetime :: "(string \<Rightarrow> int option) \<Rightarrow> cell \<Rightarrow> error + cell" where
  "to_datetime parse Null = Inr Null"
| "to_datetime parse (Time t) = Inr (Time t)"
| "to_datetime parse (Int64 i) = Inr (Time i)"
| "to_datetime parse (Num x) = Inr (Time \<lfloor>x\<rfloor>)"
| "to_datetime parse PlusInf = Inl ParseError"
| "to_datetime parse MinusInf = Inl ParseError"
| "to_datetime parse (Text s) = (case parse s of None \<Rightarrow> Inl ParseError | Some t \<Rightarrow> Inr (Time t))"

text \<open>\<open>row[c] = v\<close>.\<close>

definition setitem :: "string list \<Rightarrow> cell list \<Rightarrow> string \<Rightarrow> cell \<Rightarrow> cell list" where
  "setitem cols r c v = map (\<lambda>(k, x). if k = c then v else x) (zip cols r)"

fun coerce_rows :: "(string \<Rightarrow> int option) \<Rightarrow> string list \<Rightarrow> string \<Rightarrow> cell list list
    \<Rightarrow> error + cell list list" where
  "coerce_rows parse cols c [] = Inr []"
| "coerce_rows parse cols c (r # rs) =
     (case getitem cols r c of
        Inl e \<Rightarrow> Inl e
      | Inr v \<Rightarrow>
          (case to_datetime parse v of
             Inl e \<Rightarrow> Inl e
           | Inr t \<Rightarrow>
               (case coerce_rows parse cols c rs of
                  Inl e \<Rightarrow> Inl e
                | Inr rs' \<Rightarrow> Inr (setitem cols r c t # rs'))))"

text \<open>The body of \<open>get_data\<close>: a copy of the global \<open>df\<close> with the column \<open>date_col\<close>
  coerced. Both are free variables of the function, not arguments.\<close>

definition get_data_body :: "(string \<Rightarrow> int option) \<Rightarrow> dataframe \<Rightarrow> string \<Rightarrow> error + dataframe" where
  "get_data_body parse df date_col =
     (case coerce_rows parse (columns df) date_col (body df) of
        Inl e \<Rightarrow> Inl e
      | Inr b \<Rightarrow> Inr (df\<lparr>body := b\<rparr>))"

text \<open>\<open>@st.cache_data\<close> keys an entry by the function (its name and source text) and by the
  values of its arguments. \<open>get_data\<close> has no argument, so its cache has one entry, which
  outlives a rerun of the script: \<open>None\<close> before the first successful call, \<open>Some\<close> the
  stored return value after it. A call that raises stores nothing.\<close>

type_synonym cache = "dataframe option"

definition get_data :: "(string \<Rightarrow> int option) \<Rightarrow> cache \<Rightarrow> dataframe \<Rightarrow> string
    \<Rightarrow> error + (dataframe \<times> cache)" where
  "get_data parse cache df date_col =
     (case cache of
        Some stored \<Rightarrow> Inr (stored, cache)
      | None \<Rightarrow>
          (case get_data_body parse df date_col of
             Inl e \<Rightarrow> Inl e
           | Inr d \<Rightarrow> Inr (d, Some d)))"

subsection \<open>KPIs\<close>

record kpi_summary =
  total :: number
  mean :: number
  latest :: number
  prev :: number
  delta :: number

text \<open>\<open>row[value_col]\<close> read as a number.\<close>

definition metric :: "string list \<Rightarrow> string \<Rightarrow> cell list \<Rightarrow> error + number" where
  "metric cols value_col r =
     (case getitem cols r value_col of Inl e \<Rightarrow> Inl e | Inr v \<Rightarrow> Inr (as_number v))"

text \<open>The sort key of \<open>data.sort_values(date_col)\<close>.\<close>

definition row_time :: "string list \<Rightarrow> string \<Rightarrow> cell list \<Rightarrow> int option" where
  "row_time cols date_col r =
     (case getitem cols r date_col of Inl _ \<Rightarrow> None | Inr v \<Rightarrow> time_key v)"

text \<open>\<open>sorted_data\<close> is a result of \<open>data.sort_values(date_col)\<close>.\<close>

definition is_sorted_data :: "dataframe \<Rightarrow> string \<Rightarrow> cell list list \<Rightarrow> bool" where
  "is_sorted_data data date_col sorted_data =
     sort_values_result time_le (row_time (columns data) date_col) (body data) sorted_data"

text \<open>Lines 84 to 89, given \<open>sorted_data\<close>. \<open>data[value_col]\<close> raises \<open>KeyError\<close>
  for a label that is no column, and \<open>sum\<close> and \<open>mean\<close> raise \<open>TypeError\<close> on a
  column that is not numeric.\<close>

definition kpis :: "dataframe \<Rightarrow> string \<Rightarrow> cell list list \<Rightarrow> error + kpi_summary" where
  "kpis data value_col sorted_data =
     (if value_col \<notin> set (columns data) then Inl KeyError
      else if \<not> numeric_column data value_col then Inl TypeError
      else
        (let int64 = int64_column data value_col;
             tot = series_sum int64 (column_numbers data value_col);
             avg = series_mean (column_numbers data value_col)
         in case iloc sorted_data (- 1) of
              Inl e \<Rightarrow> Inl e
            | Inr r1 \<Rightarrow>
                (case metric (columns data) value_col r1 of
                   Inl e \<Rightarrow> Inl e
                 | Inr lat \<Rightarrow>
                     (case (if length sorted_data > 1
                            then (case iloc sorted_data (- 2) of
                                    Inl e \<Rightarrow> Inl e
                                  | Inr r2 \<Rightarrow> metric (columns data) value_col r2)
                            else Inr lat) of
                        Inl e \<Rightarrow> Inl e
                      | Inr prv \<Rightarrow>
                          Inr \<lparr>total = tot, mean = avg, latest = lat, prev = prv,
                               delta = number_sub int64 lat prv\<rparr>))))"

subsection \<open>The sort the library runs\<close>

text \<open>
  \<open>sort_values\<close> on one column computes a permutation of the row positions with
  \<open>nargsort\<close>: the positions of the missing keys are set aside and appended at the end
  (\<open>na_position='last'\<close>), the others are ordered by numpy's \<open>argsort\<close> with
  \<open>kind='quicksort'\<close>. For timestamps that is the index introsort \<open>aquicksort\<close> of
  \<open>npysort/quicksort.cpp\<close>: a median-of-three partition while a segment has more than
  \<open>SMALL_QUICKSORT + 1\<close> elements, then insertion sort. \<open>v\<close> holds the keys, \<open>ts\<close>
  the segment of the index array \<open>tosort\<close> from \<open>pl\<close> to \<open>pr\<close>, positions counted
  from \<open>pl\<close>.
\<close>

text \<open>\<open>INTP_SWAP(ts[i], ts[j])\<close>.\<close>

definition swap :: "nat list \<Rightarrow> nat \<Rightarrow> nat \<Rightarrow> nat list" where
  "swap ts i j = ts[i := ts ! j, j := ts ! i]"

text \<open>\<open>do { ++pi; } while (less(v[*pi], vp))\<close> entered at \<open>i\<close>, and
  \<open>do { --pj; } while (less(vp, v[*pj]))\<close> entered at \<open>j\<close>. In the C code the median
  of three keeps both scans inside the segment; here they also stop at its ends.\<close>

function scan_up :: "int list \<Rightarrow> int \<Rightarrow> nat list \<Rightarrow> nat \<Rightarrow> nat" where
  "scan_up v vp ts i =
     (if i < length ts \<and> v ! (ts ! i) < vp then scan_up v vp ts (Suc i) else i)"
  by pat_completeness auto
termination
  by (relation "measure (\<lambda>(v, vp, ts, i). length ts - i)") auto

function scan_down :: "int list \<Rightarrow> int \<Rightarrow> nat list \<Rightarrow> nat \<Rightarrow> nat" where
  "scan_down v vp ts j =
     (if 0 < j \<and> vp < v ! (ts ! j) then scan_down v vp ts (j - 1) else j)"
  by pat_completeness auto
termination
  by (relation "measure (\<lambda>(v, vp, ts, j). j)") auto

declare scan_up.simps [simp del] scan_down.simps [simp del]

text \<open>The loop \<open>for (;;)\<close> of the partition, with the positions \<open>pi\<close> and \<open>pj\<close> it
  starts from: it returns the index array and the position where the scans met.\<close>

function partition_loop :: "int list \<Rightarrow> int \<Rightarrow> nat list \<Rightarrow> nat \<Rightarrow> nat \<Rightarrow> nat list \<times> nat" where
  "partition_loop v vp ts i j =
     (let i' = scan_up v vp ts (Suc i); j' = scan_down v vp ts (j - 1)
      in if j' \<le> i' then (ts, i') else partition_loop v vp (swap ts i' j') i' j')"
  by pat_completeness auto
termination
proof (relation "measure (\<lambda>(v, vp, ts, i, j). j - i)")
  show "wf (measure (\<lambda>(v, vp, ts, i, j). j - i))" by simp
next
  fix v vp ts i j i' j'
  assume a: "i' = scan_up v vp ts (Suc i)" "j' = scan_down v vp ts (j - 1)" "\<not> j' \<le> i'"
  have up: "k \<le> scan_up v vp ts k" for k
  proof (induction v vp ts k rule: scan_up.induct)
    case (1 v vp ts k)
    show ?case
    proof (cases "k < length ts \<and> v ! (ts ! k) < vp")
      case True
      have "scan_up v vp ts k = scan_up v vp ts (Suc k)"
        by (subst scan_up.simps) (use True in simp)
      with "1.IH" [OF True] show ?thesis by simp
    next
      case False
      have "scan_up v vp ts k = k"
        by (subst scan_up.simps) (use False in auto)
      then show ?thesis by simp
    qed
  qed
  have down: "scan_down v vp ts k \<le> k" for k
  proof (induction v vp ts k rule: scan_down.induct)
    case (1 v vp ts k)
    show ?case
    proof (cases "0 < k \<and> vp < v ! (ts ! k)")
      case True
      have "scan_down v vp ts k = scan_down v vp ts (k - 1)"
        by (subst scan_down.simps) (use True in simp)
      with "1.IH" [OF True] show ?thesis by simp
    next
      case False
      have "scan_down v vp ts k = k"
        by (subst scan_down.simps) (use False in auto)
      then show ?thesis by simp
    qed
  qed
  have "Suc i \<le> i'" using a(1) up by simp
  moreover have "j' \<le> j - 1" using a(2) down by simp
  ultimately show "((v, vp, swap ts i' j', i', j'), (v, vp, ts, i, j))
      \<in> measure (\<lambda>(v, vp, ts, i, j). j - i)"
    using a(3) by simp
qed

declare partition_loop.simps [simp del]

text \<open>One partition of a segment: the median of three of its first, middle and last
  element is the pivot \<open>vp\<close>, parked at \<open>pr - 1\<close> during the loop and swapped to the
  meeting position afterwards. The result is the index array and the position of the
  pivot.\<close>

definition partition :: "int list \<Rightarrow> nat list \<Rightarrow> nat list \<times> nat" where
  "partition v ts =
     (let pr = length ts - 1;
          pm = pr div 2;
          ts1 = (if v ! (ts ! pm) < v ! (ts ! 0) then swap ts pm 0 else ts);
          ts2 = (if v ! (ts1 ! pr) < v ! (ts1 ! pm) then swap ts1 pr pm else ts1);
          ts3 = (if v ! (ts2 ! pm) < v ! (ts2 ! 0) then swap ts2 pm 0 else ts2);
          vp = v ! (ts3 ! pm);
          ts4 = swap ts3 pm (pr - 1);
          (ts5, i) = partition_loop v vp ts4 0 (pr - 1)
      in (swap ts5 i (pr - 1), i))"

text \<open>The insertion sort of a segment: each index in turn moves left past the indices with
  a greater key (\<open>shift\<close> works on the sorted prefix, last element first). Equal keys are
  not passed.\<close>

fun shift :: "int list \<Rightarrow> nat \<Rightarrow> nat list \<Rightarrow> nat list" where
  "shift v vi [] = [vi]"
| "shift v vi (k # ks) = (if v ! vi < v ! k then k # shift v vi ks else vi # k # ks)"

definition insertion_sort :: "int list \<Rightarrow> nat list \<Rightarrow> nat list" where
  "insertion_sort v ts = rev (foldl (\<lambda>done vi. shift v vi done) [] ts)"

definition SMALL_QUICKSORT :: nat where
  "SMALL_QUICKSORT = 16"

text \<open>\<open>aquicksort\<close> on a segment. After a partition the C code goes on with the smaller
  side and pushes the greater side on its stack with the depth \<open>cdepth - 1\<close>; a side
  popped from the stack is first checked against the depth limit (\<open>popped\<close>), and at a
  negative depth numpy switches to heapsort, which is not modelled: \<open>None\<close>. A pivot
  position outside the segment cannot occur in the C code and is \<open>None\<close> as well.\<close>

function aquicksort_seg :: "int list \<Rightarrow> int \<Rightarrow> bool \<Rightarrow> nat list \<Rightarrow> nat list option" where
  "aquicksort_seg v cdepth popped ts =
     (if popped \<and> cdepth < 0 then None
      else if SMALL_QUICKSORT < length ts - 1 then
        (let ts' = fst (partition v ts); p = snd (partition v ts)
         in if length ts' \<le> p then None
            else
              (case aquicksort_seg v (cdepth - 1) (\<not> p < length ts' - 1 - p) (take p ts') of
                 None \<Rightarrow> None
               | Some l \<Rightarrow>
                   (case aquicksort_seg v (cdepth - 1) (p < length ts' - 1 - p) (drop (Suc p) ts') of
                      None \<Rightarrow> None
                    | Some r \<Rightarrow> Some (l @ ts' ! p # r))))
      else Some (insertion_sort v ts))"
  by pat_completeness auto
termination
proof (relation "measure (\<lambda>(v, cdepth, popped, ts). length ts)")
  have loop: "length (fst (partition_loop v vp ts i j)) = length ts" for v vp ts i j
  proof (induction v vp ts i j rule: partition_loop.induct)
    case (1 v vp ts i j)
    let ?i = "scan_up v vp ts (Suc i)" and ?j = "scan_down v vp ts (j - 1)"
    show ?case
    proof (cases "?j \<le> ?i")
      case True
      then have "partition_loop v vp ts i j = (ts, ?i)"
        by (subst partition_loop.simps) (simp add: Let_def)
      then show ?thesis by simp
    next
      case False
      then have "partition_loop v vp ts i j = partition_loop v vp (swap ts ?i ?j) ?i ?j"
        by (subst partition_loop.simps) (simp add: Let_def)
      with "1.IH" [OF refl refl False] show ?thesis by (simp add: swap_def)
    qed
  qed
  have part: "length (fst (partition v ts)) = length ts" for v ts
  proof -
    have "length (fst (case partition_loop v vp xs 0 k of (ts5, i) \<Rightarrow> (swap ts5 i m, i))) = length xs"
      for vp xs k m
      using loop [of v vp xs 0 k]
      by (cases "partition_loop v vp xs 0 k") (simp add: swap_def)
    then show ?thesis by (simp add: partition_def Let_def swap_def)
  qed
  show "wf (measure (\<lambda>(v, cdepth, popped, ts). length ts))" by simp
  show "((v, cdepth - 1, \<not> p < length ts' - 1 - p, take p ts'), (v, cdepth, popped, ts))
      \<in> measure (\<lambda>(v, cdepth, popped, ts). length ts)"
    if "ts' = fst (partition v ts)" and "\<not> length ts' \<le> p"
    for v cdepth popped ts ts' p
    using that part [of v ts] by simp
  show "((v, cdepth - 1, p < length ts' - 1 - p, drop (Suc p) ts'), (v, cdepth, popped, ts))
      \<in> measure (\<lambda>(v, cdepth, popped, ts). length ts)"
    if "ts' = fst (partition v ts)" and "\<not> length ts' \<le> p"
    for v cdepth popped ts ts' p
    using that part [of v ts] by simp
qed

text \<open>\<open>npy_get_msb\<close>, and \<open>aquicksort\<close> on the whole index array \<open>0, ..., n - 1\<close> with
  the depth limit \<open>2 * npy_get_msb(n)\<close>.\<close>

fun msb :: "nat \<Rightarrow> nat" where
  "msb n = (if n < 2 then 0 else Suc (msb (n div 2)))"

definition aquicksort :: "int list \<Rightarrow> nat list option" where
  "aquicksort v = aquicksort_seg v (2 * int (msb (length v))) True [0..<length v]"

text \<open>\<open>nargsort\<close> on the keys of the rows (\<open>None\<close> is NaT), and \<open>sort_values\<close>: the
  rows in the order of the permutation.\<close>

definition nargsort :: "int option list \<Rightarrow> nat list option" where
  "nargsort items =
     (let idx = [0..<length items];
          non_nan_idx = filter (\<lambda>i. items ! i \<noteq> None) idx;
          nan_idx = filter (\<lambda>i. items ! i = None) idx;
          non_nans = concat (map (\<lambda>k. case k of None \<Rightarrow> [] | Some t \<Rightarrow> [t]) items)
      in case aquicksort non_nans of
           None \<Rightarrow> None
         | Some indexer \<Rightarrow> Some (map (\<lambda>i. non_nan_idx ! i) indexer @ nan_idx))"

definition sort_values :: "dataframe \<Rightarrow> string \<Rightarrow> cell list list option" where
  "sort_values data date_col =
     (case nargsort (map (row_time (columns data) date_col) (body data)) of
        None \<Rightarrow> None
      | Some indexer \<Rightarrow> Some (map (\<lambda>i. body data ! i) indexer))"

subsection \<open>Ranking (\<open>agg\<close>)\<close>

text \<open>The order in which \<open>groupby\<close> (\<open>sort=True\<close>) lists its group keys: by value
  within one type, a key of several columns lexicographically.\<close>

fun cell_code :: "cell \<Rightarrow> nat \<times> rat \<times> string \<times> int" where
  "cell_code Null = (0, 0, [], 0)"
| "cell_code MinusInf = (1, 0, [], 0)"
| "cell_code (Int64 i) = (2, of_int i, [], 0)"
| "cell_code (Num x) = (2, x, [], 0)"
| "cell_code PlusInf = (3, 0, [], 0)"
| "cell_code (Text s) = (4, 0, s, 0)"
| "cell_code (Time t) = (5, 0, [], t)"

text \<open>The group key of a row: its cells under \<open>group_cols\<close>, in that order.\<close>

definition row_key :: "string list \<Rightarrow> string list \<Rightarrow> cell list \<Rightarrow> cell list" where
  "row_key cols group_cols r =
     map (\<lambda>c. case getitem cols r c of Inl _ \<Rightarrow> Null | Inr v \<Rightarrow> v) group_cols"

text \<open>\<open>groupby(group_cols)[value_col].sum().reset_index()\<close> on the (key, value) pairs of
  the rows, for a value column of the given dtype. \<open>dropna=True\<close> leaves out every row
  with a missing value in its key; the groups come in ascending key order; each sum skips
  missing values and, on an integer column, wraps around.\<close>

definition group_rows :: "(cell list \<times> number) list \<Rightarrow> (cell list \<times> number) list" where
  "group_rows kvs = filter (\<lambda>kv. Null \<notin> set (fst kv)) kvs"

definition group_sum :: "bool \<Rightarrow> (cell list \<times> number) list \<Rightarrow> cell list \<Rightarrow> number" where
  "group_sum int64 kvs k = series_sum int64 (map snd (filter (\<lambda>kv. fst kv = k) kvs))"

definition groupby_sum :: "bool \<Rightarrow> (cell list \<times> number) list \<Rightarrow> (cell list \<times> number) list" where
  "groupby_sum int64 kvs =
     (let live = group_rows kvs
      in map (\<lambda>k. (k, group_sum int64 live k))
           (sort_key (map cell_code) (remdups (map fst live))))"

text \<open>The (key, value) pairs of the rows. The ranking is computed after the KPIs, so the
  value column is numeric when these lines are reached.\<close>

definition keyed_rows :: "dataframe \<Rightarrow> string list \<Rightarrow> string \<Rightarrow> (cell list \<times> number) list" where
  "keyed_rows data group_cols value_col =
     map (\<lambda>r. (row_key (columns data) group_cols r,
               (case metric (columns data) value_col r of Inl _ \<Rightarrow> NaN | Inr v \<Rightarrow> v)))
       (body data)"

text \<open>\<open>.head(n)\<close>.\<close>

definition head :: "nat \<Rightarrow> 'a list \<Rightarrow> 'a list" where
  "head n xs = take n xs"

text \<open>\<open>agg\<close> is a result of lines 113 to 119: \<open>ordered\<close> is a result of
  \<open>sort_values(value_col, ascending=False)\<close> on the grouped sums, and \<open>agg\<close> its first
  ten rows.\<close>

definition is_agg :: "dataframe \<Rightarrow> string list \<Rightarrow> string \<Rightarrow> (cell list \<times> number) list
    \<Rightarrow> (cell list \<times> number) list \<Rightarrow> bool" where
  "is_agg data group_cols value_col ordered agg =
     (group_cols \<noteq> [] \<and>
      sort_values_result (\<lambda>a b. b \<le> a) snd
        (groupby_sum (int64_column data value_col) (keyed_rows data group_cols value_col))
        ordered \<and>
      agg = head 10 ordered)"

subsection \<open>Source selector, SQL branch\<close>

text \<open>The values of the sidebar widgets of the branch \<open>"Banco de Dados SQL"\<close>.\<close>

record sql_inputs =
  db_type :: string
  sqlite_path :: string
  db_user :: string
  db_pass :: string
  db_host :: string
  db_port :: string
  db_name :: string
  query :: string

text \<open>The library calls the branch makes, in order: \<open>create_engine(url)\<close> and
  \<open>pd.read_sql_query(query, engine)\<close>.\<close>

datatype effect = CreateEngine string | ReadSqlQuery string

definition sqlite_url :: "sql_inputs \<Rightarrow> string" where
  "sqlite_url i = ''sqlite:///'' @ sqlite_path i"

definition network_url :: "sql_inputs \<Rightarrow> string" where
  "network_url i =
     db_type i @ ''://'' @ db_user i @ '':'' @ db_pass i @ ''@'' @ db_host i @ '':'' @ db_port i
       @ ''/'' @ db_name i"

text \<open>Lines 35 to 51. \<open>create_engine\<close> is the library's (a parameter); it returns an
  engine or raises. A string is true when it is not empty.\<close>

definition sql_engine :: "(string \<Rightarrow> error + 'e) \<Rightarrow> sql_inputs \<Rightarrow> effect list \<times> (error + 'e option)" where
  "sql_engine create_engine i =
     (if db_type i = ''sqlite'' then
        (if sqlite_path i \<noteq> [] then
           ([CreateEngine (sqlite_url i)], map_sum id Some (create_engine (sqlite_url i)))
         else ([], Inr None))
      else
        (if list_all (\<lambda>s. s \<noteq> []) [db_user i, db_pass i, db_host i, db_port i, db_name i] then
           ([CreateEngine (network_url i)], map_sum id Some (create_engine (network_url i)))
         else ([], Inr None)))"

text \<open>Lines 33 to 54: the loaded table \<open>df\<close>, or \<open>None\<close>, or the exception raised, with
  the calls made.\<close>

definition sql_source :: "(string \<Rightarrow> error + 'e) \<Rightarrow> (string \<Rightarrow> 'e \<Rightarrow> error + dataframe)
    \<Rightarrow> sql_inputs \<Rightarrow> effect list \<times> (error + dataframe option)" where
  "sql_source create_engine read_sql_query i =
     (case sql_engine create_engine i of
        (calls, Inl e) \<Rightarrow> (calls, Inl e)
      | (calls, Inr None) \<Rightarrow> (calls, Inr None)
      | (calls, Inr (Some engine)) \<Rightarrow>
          (if query i \<noteq> [] then
             (calls @ [ReadSqlQuery (query i)], map_sum id Some (read_sql_query (query i) engine))
           else (calls, Inr None)))"

text \<open>Lines 56 and 162: the dashboard when a table was loaded, the placeholder
  \<open>"Aguardando ..."\<close> otherwise.\<close>

datatype screen = AwaitingInput | Dashboard dataframe

definition render :: "dataframe option \<Rightarrow> screen" where
  "render df = (case df of None \<Rightarrow> AwaitingInput | Some d \<Rightarrow> Dashboard d)"

subsection \<open>Well-formed tables and example tables\<close>

text \<open>The invariant of a table: every row has one cell per column.\<close>

definition well_formed :: "dataframe \<Rightarrow> bool" where
  "well_formed d = list_all (\<lambda>r. length r = length (columns d)) (body d)"

text \<open>The table of the scenario in the specification, one with a missing sales value, and
  tables of one row.\<close>

definition scenario_data :: dataframe where
  "scenario_data = \<lparr>columns = [''date'', ''region'', ''sales''],
     body = [[Time 1, Text ''A'', Num 10], [Time 2, Text ''B'', Num 20], [Time 3, Text ''A'', Num 5]]\<rparr>"


definition one_row_nan :: dataframe where
  "one_row_nan = \<lparr>columns = [''date'', ''sales''], body = [[Time 1, Null]]\<rparr>"

definition one_row :: dataframe where
  "one_row = \<lparr>columns = [''date'', ''sales''], body = [[Time 1, Num 7]]\<rparr>"


definition big_sales :: dataframe where
  "big_sales = \<lparr>columns = [''date'', ''sales''],
     body = [[Time 1, Int64 4611686018427387904], [Time 2, Int64 4611686018427387904]]\<rparr>"

definition one_row_inf :: dataframe where
  "one_row_inf = \<lparr>columns = [''date'', ''sales''], body = [[Time 1, PlusInf]]\<rparr>"

subsection \<open>Example inputs of the source selector and of the cache\<close>

text \<open>Network-driver inputs with an empty query and a port that is no number, and with an
  empty password.\<close>

definition sql_missing_query :: sql_inputs where
  "sql_missing_query = \<lparr>db_type = ''postgresql'', sqlite_path = [], db_user = ''u'', db_pass = ''p'',
     db_host = ''localhost'', db_port = ''abc'', db_name = ''d'', query = []\<rparr>"

definition sql_missing_password :: sql_inputs where
  "sql_missing_password = \<lparr>db_type = ''postgresql'', sqlite_path = [], db_user = ''u'', db_pass = [],
     db_host = ''localhost'', db_port = ''5432'', db_name = ''d'', query = ''select 1''\<rparr>"

text \<open>A \<open>create_engine\<close> that rejects the URL with the malformed port, as the library does
  when it parses the URL, and a \<open>read_sql_query\<close> that always fails.\<close>

definition strict_engine :: "string \<Rightarrow> error + string" where
  "strict_engine url = (if url = ''postgresql://u:p@localhost:abc/d'' then Inl EngineError else Inr url)"

definition no_table :: "string \<Rightarrow> string \<Rightarrow> error + dataframe" where
  "no_table q engine = Inl QueryError"

text \<open>Two uploads, one after the other, and a date parser for their two dates.\<close>

definition iso_day :: "string \<Rightarrow> int option" where
  "iso_day s = (if s = ''2024-01-01'' then Some 1 else if s = ''2024-01-02'' then Some 2 else None)"

definition first_upload :: dataframe where
  "first_upload = \<lparr>columns = [''date'', ''sales''], body = [[Text ''2024-01-01'', Num 10]]\<rparr>"

definition second_upload :: dataframe where
  "second_upload = \<lparr>columns = [''date'', ''sales''], body = [[Text ''2024-01-02'', Num 20]]\<rparr>"

definition first_coerced :: dataframe where
  "first_coerced = \<lparr>columns = [''date'', ''sales''], body = [[Time 1, Num 10]]\<rparr>"

definition second_coerced :: dataframe where
  "second_coerced = \<lparr>columns = [''date'', ''sales''], body = [[Time 2, Num 20]]\<rparr>"

text \<open>The scenario table with a missing region in its second row.\<close>

definition null_region_data :: dataframe where
  "null_region_data = \<lparr>columns = [''date'', ''region'', ''sales''],
     body = [[Time 1, Text ''A'', Num 10], [Time 2, Null, Num 20], [Time 3, Text ''A'', Num 5]]\<rparr>"

subsection \<open>Example tables of the ranking\<close>

text \<open>Two grouping columns that agree on the first and differ on the second; two groups
  with equal sums, the later key first in the table; eleven groups.\<close>

definition two_dims :: dataframe where
  "two_dims = \<lparr>columns = [''date'', ''region'', ''city'', ''sales''],
     body = [[Time 1, Text ''A'', Text ''X'', Num 10], [Time 2, Text ''A'', Text ''Y'', Num 20]]\<rparr>"

definition tie_data :: dataframe where
  "tie_data = \<lparr>columns = [''date'', ''region'', ''sales''],
     body = [[Time 1, Text ''B'', Num 10], [Time 2, Text ''A'', Num 10]]\<rparr>"

definition eleven_regions :: dataframe where
  "eleven_regions = \<lparr>columns = [''date'', ''region'', ''sales''],
     body = [[Time 1, Text ''a'', Num 1],
       [Time 2, Text ''b'', Num 2],
       [Time 3, Text ''c'', Num 3],
       [Time 4, Text ''d'', Num 4],
       [Time 5, Text ''e'', Num 5],
       [Time 6, Text ''f'', Num 6],
       [Time 7, Text ''g'', Num 7],
       [Time 8, Text ''h'', Num 8],
       [Time 9, Text ''i'', Num 9],
       [Time 10, Text ''j'', Num 10],
       [Time 11, Text ''k'', Num 11]]\<rparr>"

definition eleven_ordered :: "(cell list \<times> number) list" where
  "eleven_ordered = [([Text ''k''], Fin 11),
       ([Text ''j''], Fin 10),
       ([Text ''i''], Fin 9),
       ([Text ''h''], Fin 8),
       ([Text ''g''], Fin 7),
       ([Text ''f''], Fin 6),
       ([Text ''e''], Fin 5),
       ([Text ''d''], Fin 4),
       ([Text ''c''], Fin 3),
       ([Text ''b''], Fin 2),
       ([Text ''a''], Fin 1)]"

text \<open>The descending sort of the grouped sums as a stable sort would do it (the rows are
  reversed, sorted ascending by a stable sort and reversed again): groups of equal sum stay
  in the order they came in.\<close>

definition stable_descending :: "(cell list \<times> number) list \<Rightarrow> (cell list \<times> number) list" where
  "stable_descending gs = rev (sort_key snd (rev gs))"

text \<open>The position at which a key first appears among the keys of the rows, the order the
  specification names for ties.\<close>

definition first_appearance :: "'a list \<Rightarrow> 'a \<Rightarrow> nat" where
  "first_appearance xs k = length (takeWhile (\<lambda>x. x \<noteq> k) xs)"

subsection \<open>The ordering the specification describes\<close>

text \<open>The rows in ascending order of their time value, missing times last, rows of equal
  time value in their original order: the stable sort of the specification, for comparison
  with what \<open>sort_values\<close> promises.\<close>

fun time_code :: "int option \<Rightarrow> nat \<times> int" where
  "time_code (Some t) = (0, t)"
| "time_code None = (1, 0)"

definition spec_stable_sort :: "dataframe \<Rightarrow> string \<Rightarrow> cell list list" where
  "spec_stable_sort data date_col =
     sort_key (\<lambda>r. time_code (row_time (columns data) date_col r)) (body data)"

text \<open>Eighteen rows: the first two share the latest day, the other sixteen an earlier
  one. \<open>tied_latest_sorted\<close> is the order in which \<open>sort_values\<close> returns them.\<close>

definition tied_latest :: dataframe where
  "tied_latest = \<lparr>columns = [''date'', ''sales''],
     body =
      [[Time 2, Num 100], [Time 2, Num 200], [Time 1, Num 1], [Time 1, Num 1],
       [Time 1, Num 1], [Time 1, Num 1], [Time 1, Num 1], [Time 1, Num 1],
       [Time 1, Num 1], [Time 1, Num 1], [Time 1, Num 1], [Time 1, Num 1],
       [Time 1, Num 1], [Time 1, Num 1], [Time 1, Num 1], [Time 1, Num 1],
       [Time 1, Num 1], [Time 1, Num 1]]\<rparr>"

definition tied_latest_sorted :: "cell list list" where
  "tied_latest_sorted =
      [[Time 1, Num 1], [Time 1, Num 1], [Time 1, Num 1], [Time 1, Num 1],
       [Time 1, Num 1], [Time 1, Num 1], [Time 1, Num 1], [Time 1, Num 1],
       [Time 1, Num 1], [Time 1, Num 1], [Time 1, Num 1], [Time 1, Num 1],
       [Time 1, Num 1], [Time 1, Num 1], [Time 1, Num 1], [Time 1, Num 1],
       [Time 2, Num 200], [Time 2, Num 100]]"

section \<open>Properties\<close>

subsection \<open>Helper facts\<close>

lemma iloc_last: "xs \<noteq> [] \<Longrightarrow> iloc xs (- 1) = Inr (last xs)"
  by (cases xs rule: rev_cases) (simp_all add: iloc_def nat_add_distrib)

lemma getitem_total:
  "c \<in> set cols \<Longrightarrow> length r = length cols \<Longrightarrow> \<exists>v. getitem cols r c = Inr v"
proof -
  assume "c \<in> set cols" "length r = length cols"
  then have "c \<in> fst ` set (zip cols r)" by (simp add: map_fst_zip flip: set_map)
  then have "map_of (zip cols r) c \<noteq> None" by (simp add: map_of_eq_None_iff)
  then show ?thesis by (auto simp: getitem_def split: option.splits)
qed

lemma iloc_second_last:
  "1 < length xs \<Longrightarrow> iloc xs (- 2) = Inr (xs ! (length xs - 2))"
proof -
  assume "1 < length xs"
  then have "nat (int (length xs) + - 2) = length xs - 2" by linarith
  with \<open>1 < length xs\<close> show ?thesis by (simp add: iloc_def)
qed

subsection \<open>Facts about sums\<close>

lemma foldl_plus_number: "foldl (+) a xs = a + sum_list xs" for a :: number
  by (induction xs arbitrary: a) (simp_all add: add.assoc)

lemma float_sum_sum_list: "float_sum xs = sum_list xs"
  by (simp add: float_sum_def foldl_plus_number zero_number_def [symmetric])

lemma wrap64_idem_add: "wrap64 (wrap64 a + b) = wrap64 (a + b)"
proof -
  have "wrap64 a + b + 2 ^ 63 = (a + 2 ^ 63) mod 2 ^ 64 + b" by (simp add: wrap64_def)
  then have "(wrap64 a + b + 2 ^ 63) mod 2 ^ 64 = ((a + 2 ^ 63) mod 2 ^ 64 + b) mod (2 ^ 64 :: int)"
    by (simp only:)
  also have "\<dots> = (a + 2 ^ 63 + b) mod 2 ^ 64" by (rule mod_add_left_eq)
  also have "a + 2 ^ 63 + b = a + b + 2 ^ 63" by (simp only: add.assoc add.commute [of b])
  finally show ?thesis by (simp only: wrap64_def)
qed


lemma wrap64_zero: "wrap64 0 = 0"
  by (simp add: wrap64_def)

lemma int64_fold:
  "foldl (\<lambda>acc x. wrap64 (acc + f x)) (wrap64 a) xs = wrap64 (a + sum_list (map f xs))"
proof (induction xs arbitrary: a)
  case Nil
  show ?case by simp
next
  case (Cons x xs)
  have "foldl (\<lambda>acc x. wrap64 (acc + f x)) (wrap64 a) (x # xs) =
        foldl (\<lambda>acc x. wrap64 (acc + f x)) (wrap64 (a + f x)) xs"
    by (simp add: wrap64_idem_add)
  also have "\<dots> = wrap64 (a + f x + sum_list (map f xs))" by (rule Cons.IH)
  finally show ?case by (simp add: add.assoc)
qed

lemma int64_sum_wrap: "int64_sum xs = Fin (of_int (wrap64 (sum_list (map int_of xs))))"
  using int64_fold [of int_of 0 xs] by (simp add: int64_sum_def wrap64_zero)








subsection \<open>Facts about the KPI computation\<close>

lemma kpis_Inr:
  assumes "kpis data value_col sorted_data = Inr k"
  shows "value_col \<in> set (columns data)"
    and "numeric_column data value_col"
    and "total k = series_sum (int64_column data value_col) (column_numbers data value_col)"
    and "mean k = series_mean (column_numbers data value_col)"
    and "delta k = number_sub (int64_column data value_col) (latest k) (prev k)"
    and "\<exists>r1. iloc sorted_data (- 1) = Inr r1 \<and> metric (columns data) value_col r1 = Inr (latest k)"
    and "1 < length sorted_data \<Longrightarrow>
           \<exists>r2. iloc sorted_data (- 2) = Inr r2 \<and> metric (columns data) value_col r2 = Inr (prev k)"
    and "\<not> 1 < length sorted_data \<Longrightarrow> prev k = latest k"
  using assms by (auto simp: kpis_def Let_def split: if_splits sum.splits)

lemma kpis_not_IndexError:
  assumes "iloc sorted_data (- 1) = Inr r1"
    and "1 < length sorted_data \<Longrightarrow> \<exists>r2. iloc sorted_data (- 2) = Inr r2"
    and "\<And>r. metric (columns data) value_col r \<noteq> Inl IndexError"
  shows "kpis data value_col sorted_data \<noteq> Inl IndexError"
  using assms by (auto simp: kpis_def Let_def split: if_splits sum.splits)

lemma kpis_returns:
  assumes "value_col \<in> set (columns data)" and "numeric_column data value_col"
    and "iloc sorted_data (- 1) = Inr r1" and "metric (columns data) value_col r1 = Inr v1"
    and "1 < length sorted_data \<Longrightarrow>
           \<exists>r2 v2. iloc sorted_data (- 2) = Inr r2 \<and> metric (columns data) value_col r2 = Inr v2"
  shows "\<exists>k. kpis data value_col sorted_data = Inr k"
proof (cases "1 < length sorted_data")
  case True
  from assms(5) [OF True] obtain r2 v2 where
    "iloc sorted_data (- 2) = Inr r2" "metric (columns data) value_col r2 = Inr v2" by blast
  with assms(1-4) True show ?thesis by (simp add: kpis_def Let_def)
next
  case False
  with assms(1-4) show ?thesis by (simp add: kpis_def Let_def)
qed

lemmas eval_defs = is_sorted_data_def sort_values_result_def row_time_def getitem_def
      kpis_def iloc_def metric_def column_numbers_def column_cells_def numeric_column_def
      int64_column_def series_sum_def number_sum_def int64_sum_def float_sum_def dropna_def
      series_mean_def series_count_def number_sub_def wrap64_def Let_def

lemma scenario_kpis:
  "kpis scenario_data ''sales'' (body scenario_data) =
     Inr \<lparr>total = Fin 35, mean = Fin (35 / 3), latest = Fin 5, prev = Fin 20,
          delta = Fin (- 15)\<rparr>"
  by (simp add: scenario_data_def eval_defs)


lemma sorted_data_length:
  "is_sorted_data data date_col sorted_data \<Longrightarrow> length sorted_data = length (body data)"
  by (auto simp: is_sorted_data_def sort_values_result_def dest: mset_eq_length)

lemma sorted_data_set:
  "is_sorted_data data date_col sorted_data \<Longrightarrow> set sorted_data = set (body data)"
  by (auto simp: is_sorted_data_def sort_values_result_def dest: mset_eq_setD)

lemma metric_not_IndexError: "metric cols value_col r \<noteq> Inl IndexError"
  by (simp add: metric_def getitem_def split: option.splits)

lemma metric_total:
  "value_col \<in> set cols \<Longrightarrow> length r = length cols \<Longrightarrow> \<exists>v. metric cols value_col r = Inr v"
  using getitem_total [of value_col cols r] by (auto simp: metric_def)

lemma one_row_kpis:
  "kpis one_row ''sales'' (body one_row) =
     Inr \<lparr>total = Fin 7, mean = Fin 7, latest = Fin 7, prev = Fin 7, delta = Fin 0\<rparr>"
  by (simp add: one_row_def eval_defs)

lemma one_row_sorted: "is_sorted_data one_row ''date'' (body one_row)"
  by (simp add: one_row_def eval_defs)

lemma one_row_inf_kpis:
  "kpis one_row_inf ''sales'' (body one_row_inf) =
     Inr \<lparr>total = PosInf, mean = PosInf, latest = PosInf, prev = PosInf, delta = NaN\<rparr>"
  by (simp add: one_row_inf_def eval_defs)

lemma big_sales_kpis:
  "kpis big_sales ''sales'' (body big_sales) =
     Inr \<lparr>total = Fin (- 9223372036854775808), mean = Fin 4611686018427387904,
          latest = Fin 4611686018427387904, prev = Fin 4611686018427387904, delta = Fin 0\<rparr>"
  by (simp add: big_sales_def eval_defs)

subsection \<open>Total and mean\<close>


text \<open>
  The claim also fails without a missing value, on an integer column whose sum leaves the
  int64 range: \<open>sum\<close> accumulates in int64 and wraps around, \<open>mean\<close> accumulates in
  float64. Two rows of \<open>2 ^ 62\<close> have the total \<open>- 2 ^ 63\<close> and the mean \<open>2 ^ 62\<close>.
\<close>

lemma int64_overflow_example:
  "kpis big_sales ''sales'' (body big_sales) =
     Inr \<lparr>total = Fin (- 9223372036854775808), mean = Fin 4611686018427387904,
          latest = Fin 4611686018427387904, prev = Fin 4611686018427387904, delta = Fin 0\<rparr> \<and>
   int64_column big_sales ''sales'' \<and>
   \<not> fits_int64 (sum_list (map int_of (column_numbers big_sales ''sales''))) \<and>
   Fin 4611686018427387904 \<noteq> div_count (Fin (- 9223372036854775808)) (length (body big_sales))"
  by (simp add: big_sales_kpis) (simp add: big_sales_def eval_defs fits_int64_def)



subsection \<open>A table of one row\<close>

text \<open>
  Claim C5, as stated: for every table with exactly one row, \<open>previous == latest\<close> and
  \<open>delta == 0\<close>. This fails when the metric value of the row is missing: \<open>latest\<close> and
  \<open>prev\<close> are both NaN, which is not equal to itself, and \<open>delta\<close> is NaN.
\<close>

theorem one_row_delta_counterexample:
  "length (body one_row_nan) = 1 \<and> is_sorted_data one_row_nan ''date'' (body one_row_nan) \<and>
   kpis one_row_nan ''sales'' (body one_row_nan) =
     Inr \<lparr>total = Fin 0, mean = NaN, latest = NaN, prev = NaN, delta = NaN\<rparr> \<and>
   \<not> num_eq NaN NaN \<and> NaN \<noteq> Fin 0"
  by (simp add: one_row_nan_def eval_defs num_eq_def)

text \<open>
  Claim C5, amended: for every table with exactly one row, \<open>prev\<close> is the same value as
  \<open>latest\<close>; when that metric value is finite (neither NaN nor an infinity),
  \<open>previous == latest\<close> and \<open>delta == 0\<close>; when it is not finite, \<open>delta\<close> is NaN.
\<close>

theorem one_row_prev_is_latest:
  assumes "length (body data) = 1"
    and "is_sorted_data data date_col sorted_data"
    and "kpis data value_col sorted_data = Inr k"
  shows "prev k = latest k \<and>
         (is_finite (latest k) \<longrightarrow> num_eq (prev k) (latest k) \<and> delta k = Fin 0) \<and>
         (\<not> is_finite (latest k) \<longrightarrow> delta k = NaN)"
proof -
  from assms(1,2) have "length sorted_data = 1" by (simp add: sorted_data_length)
  then have "\<not> 1 < length sorted_data" by simp
  with assms(3) have p: "prev k = latest k" by (rule kpis_Inr(8))
  have d: "delta k = number_sub (int64_column data value_col) (latest k) (prev k)"
    using assms(3) by (rule kpis_Inr(5))
  show ?thesis
    using p d by (cases "latest k") (simp_all add: number_sub_def num_eq_def wrap64_def)
qed

theorem one_row_prev_is_latest_witness:
  "length (body one_row) = 1 \<and> is_sorted_data one_row ''date'' (body one_row) \<and>
   kpis one_row ''sales'' (body one_row) =
     Inr \<lparr>total = Fin 7, mean = Fin 7, latest = Fin 7, prev = Fin 7, delta = Fin 0\<rparr> \<and>
   is_finite (Fin 7) \<and> num_eq (Fin 7) (Fin 7) \<and>
   length (body one_row_inf) = 1 \<and> is_sorted_data one_row_inf ''date'' (body one_row_inf) \<and>
   kpis one_row_inf ''sales'' (body one_row_inf) =
     Inr \<lparr>total = PosInf, mean = PosInf, latest = PosInf, prev = PosInf, delta = NaN\<rparr> \<and>
   \<not> is_finite PosInf"
proof -
  have a: "length (body one_row) = 1" by (simp add: one_row_def)
  have b: "length (body one_row_inf) = 1"
    "is_sorted_data one_row_inf ''date'' (body one_row_inf)"
    by (simp_all add: one_row_inf_def eval_defs)
  from one_row_prev_is_latest [OF a one_row_sorted one_row_kpis]
       one_row_prev_is_latest [OF b one_row_inf_kpis]
  show ?thesis using a b one_row_sorted one_row_kpis one_row_inf_kpis by (simp add: num_eq_def)
qed

subsection \<open>Safety of the positional reads\<close>

text \<open>
  Claim C9: for every table with at least one row, reading the last row of the sorted table
  is in range, reading the second-to-last row is in range whenever the length check
  \<open>len > 1\<close> lets it happen, and so the KPI computation never raises \<open>IndexError\<close>; on
  a well-formed table whose columns include the metric column, that column being numeric,
  it returns a summary.
\<close>

theorem latest_prev_index_safe:
  assumes "body data \<noteq> []" and "is_sorted_data data date_col sorted_data"
  shows "iloc sorted_data (- 1) = Inr (last sorted_data) \<and>
         (1 < length sorted_data \<longrightarrow>
            iloc sorted_data (- 2) = Inr (sorted_data ! (length sorted_data - 2))) \<and>
         kpis data value_col sorted_data \<noteq> Inl IndexError \<and>
         (well_formed data \<and> value_col \<in> set (columns data) \<and> numeric_column data value_col \<longrightarrow>
            (\<exists>k. kpis data value_col sorted_data = Inr k))"
proof -
  from assms have ne: "sorted_data \<noteq> []"
    using sorted_data_length [OF assms(2)] by auto
  have l: "iloc sorted_data (- 1) = Inr (last sorted_data)" using ne by (rule iloc_last)
  have s: "1 < length sorted_data \<Longrightarrow>
      iloc sorted_data (- 2) = Inr (sorted_data ! (length sorted_data - 2))"
    by (rule iloc_second_last)
  have n: "kpis data value_col sorted_data \<noteq> Inl IndexError"
  proof (rule kpis_not_IndexError [OF l])
    show "\<exists>r2. iloc sorted_data (- 2) = Inr r2" if "1 < length sorted_data"
      using s [OF that] by blast
    show "metric (columns data) value_col r \<noteq> Inl IndexError" for r
      by (rule metric_not_IndexError)
  qed
  have t: "\<exists>k. kpis data value_col sorted_data = Inr k"
    if wf: "well_formed data" and vc: "value_col \<in> set (columns data)"
      and nc: "numeric_column data value_col"
  proof -
    have len: "length r = length (columns data)" if "r \<in> set sorted_data" for r
      using that wf sorted_data_set [OF assms(2)] by (auto simp: well_formed_def list_all_iff)
    have "last sorted_data \<in> set sorted_data" using ne by simp
    then obtain v1 where v1: "metric (columns data) value_col (last sorted_data) = Inr v1"
      using metric_total [OF vc] len by blast
    show ?thesis
    proof (rule kpis_returns [OF vc nc l v1])
      assume big: "1 < length sorted_data"
      then have "sorted_data ! (length sorted_data - 2) \<in> set sorted_data" by simp
      then obtain v2 where
        "metric (columns data) value_col (sorted_data ! (length sorted_data - 2)) = Inr v2"
        using metric_total [OF vc] len by blast
      with s [OF big] show "\<exists>r2 v2. iloc sorted_data (- 2) = Inr r2 \<and>
          metric (columns data) value_col r2 = Inr v2" by blast
    qed
  qed
  from l s n t show ?thesis by blast
qed

theorem latest_prev_index_safe_witness:
  "body scenario_data \<noteq> [] \<and> is_sorted_data scenario_data ''date'' (body scenario_data) \<and>
   1 < length (body scenario_data) \<and> well_formed scenario_data \<and>
   ''sales'' \<in> set (columns scenario_data) \<and> numeric_column scenario_data ''sales'' \<and>
   iloc (body scenario_data) (- 1) = Inr [Time 3, Text ''A'', Num 5] \<and>
   iloc (body scenario_data) (- 2) = Inr [Time 2, Text ''B'', Num 20] \<and>
   kpis scenario_data ''sales'' (body scenario_data) \<noteq> Inl IndexError"
proof -
  have a: "body scenario_data \<noteq> []" by (simp add: scenario_data_def)
  have b: "is_sorted_data scenario_data ''date'' (body scenario_data)"
    by (simp add: scenario_data_def eval_defs)
  have c: "well_formed scenario_data" "''sales'' \<in> set (columns scenario_data)"
      "1 < length (body scenario_data)" "numeric_column scenario_data ''sales''"
    by (simp_all add: scenario_data_def well_formed_def numeric_column_def column_cells_def
        getitem_def)
  from latest_prev_index_safe [OF a b, of "''sales''"] a b c show ?thesis
    by (simp add: scenario_data_def)
qed

subsection \<open>Facts about the grouping\<close>

lemma group_rows_set: "set (group_rows kvs) = {kv \<in> set kvs. Null \<notin> set (fst kv)}"
  by (auto simp: group_rows_def)

lemma groupby_sum_keys:
  "map fst (groupby_sum int64 kvs) =
     sort_key (map cell_code) (remdups (map fst (group_rows kvs)))"
  by (simp add: groupby_sum_def Let_def comp_def)

lemma groupby_sum_distinct: "distinct (map fst (groupby_sum int64 kvs))"
  by (simp add: groupby_sum_keys)

lemma groupby_sum_key_set:
  "fst ` set (groupby_sum int64 kvs) = {k \<in> fst ` set kvs. Null \<notin> set k}"
proof -
  have "fst ` set (groupby_sum int64 kvs) = set (map fst (groupby_sum int64 kvs))" by simp
  also have "\<dots> = fst ` set (group_rows kvs)"
    by (simp only: groupby_sum_keys set_sort set_remdups set_map)
  also have "\<dots> = {k \<in> fst ` set kvs. Null \<notin> set k}" by (auto simp: group_rows_set)
  finally show ?thesis .
qed

lemma group_sum_group_rows:
  "Null \<notin> set k \<Longrightarrow> group_sum int64 (group_rows kvs) k = group_sum int64 kvs k"
proof -
  assume k: "Null \<notin> set k"
  have "filter (\<lambda>kv. fst kv = k) (group_rows kvs) = filter (\<lambda>kv. fst kv = k) kvs"
    unfolding group_rows_def filter_filter by (rule filter_cong) (use k in auto)
  then show ?thesis by (simp add: group_sum_def)
qed

lemma groupby_sum_member:
  assumes "(k, s) \<in> set (groupby_sum int64 kvs)"
  shows "Null \<notin> set k \<and> s = group_sum int64 kvs k"
proof -
  from assms have "k \<in> fst ` set (groupby_sum int64 kvs)" by force
  then have n: "Null \<notin> set k" by (simp add: groupby_sum_key_set)
  from assms have "s = group_sum int64 (group_rows kvs) k" by (auto simp: groupby_sum_def Let_def)
  with n show ?thesis by (simp add: group_sum_group_rows)
qed

lemma groupby_sum_key_order: "sorted (map (map cell_code \<circ> fst) (groupby_sum int64 kvs))"
proof -
  have "map (map cell_code \<circ> fst) (groupby_sum int64 kvs) =
      map (map cell_code) (map fst (groupby_sum int64 kvs))"
    by simp
  then show ?thesis by (simp only: groupby_sum_keys sorted_sort_key)
qed

lemma is_agg_set:
  "is_agg data group_cols value_col ordered agg \<Longrightarrow>
     set ordered =
       set (groupby_sum (int64_column data value_col) (keyed_rows data group_cols value_col))"
  by (auto simp: is_agg_def sort_values_result_def dest: mset_eq_setD)

lemma is_agg_distinct:
  assumes "is_agg data group_cols value_col ordered agg"
  shows "distinct (map fst ordered)"
proof -
  let ?gs = "groupby_sum (int64_column data value_col) (keyed_rows data group_cols value_col)"
  from assms have "mset ordered = mset ?gs"
    by (simp add: is_agg_def sort_values_result_def)
  then have "mset (map fst ordered) = mset (map fst ?gs)"
    by (metis mset_map)
  then show ?thesis using groupby_sum_distinct mset_eq_imp_distinct_iff by blast
qed

text \<open>Summing group by group is summing all.\<close>

lemma sum_list_single_key:
  "distinct ks \<Longrightarrow>
     sum_list (map (\<lambda>k. if a = k then c else 0) ks) =
       (if a \<in> set ks then c else (0 :: 'c :: comm_monoid_add))"
  by (induction ks) auto

lemma sum_by_key:
  fixes f :: "'k \<times> 'v \<Rightarrow> 'c :: comm_monoid_add"
  assumes "distinct ks" and "fst ` set xs \<subseteq> set ks"
  shows "sum_list (map (\<lambda>k. sum_list (map f (filter (\<lambda>kv. fst kv = k) xs))) ks) =
         sum_list (map f xs)"
  using assms(2)
proof (induction xs)
  case Nil
  show ?case by simp
next
  case (Cons x xs)
  have "(\<lambda>k. sum_list (map f (filter (\<lambda>kv. fst kv = k) (x # xs)))) =
        (\<lambda>k. (if fst x = k then f x else 0) + sum_list (map f (filter (\<lambda>kv. fst kv = k) xs)))"
    by (rule ext) simp
  then have "sum_list (map (\<lambda>k. sum_list (map f (filter (\<lambda>kv. fst kv = k) (x # xs)))) ks) =
        sum_list (map (\<lambda>k. if fst x = k then f x else 0) ks) +
        sum_list (map (\<lambda>k. sum_list (map f (filter (\<lambda>kv. fst kv = k) xs))) ks)"
    by (simp only: sum_list_addf)
  also have "sum_list (map (\<lambda>k. if fst x = k then f x else 0) ks) = f x"
    using Cons.prems assms(1) by (simp add: sum_list_single_key)
  also have "sum_list (map (\<lambda>k. sum_list (map f (filter (\<lambda>kv. fst kv = k) xs))) ks) =
      sum_list (map f xs)"
    using Cons by simp
  finally show ?case by simp
qed

lemma sum_list_dropna:
  "sum_list (dropna vs) = sum_list (map (\<lambda>v. if v = NaN then 0 else v) vs)"
  by (induction vs) (simp_all add: dropna_def)

lemma sum_int_of_dropna: "sum_list (map int_of (dropna vs)) = sum_list (map int_of vs)"
  by (induction vs) (simp_all add: dropna_def)

lemma wrap64_add_wrap: "wrap64 (a + wrap64 b) = wrap64 (a + b)"
  using wrap64_idem_add [of b a] by (simp add: add.commute)

lemma wrap64_sum_wrap:
  "wrap64 (sum_list (map (\<lambda>k. wrap64 (h k)) ks)) = wrap64 (sum_list (map h ks))"
proof (induction ks)
  case Nil
  show ?case by simp
next
  case (Cons k ks)
  have "wrap64 (sum_list (map (\<lambda>k. wrap64 (h k)) (k # ks))) =
        wrap64 (wrap64 (h k) + sum_list (map (\<lambda>k. wrap64 (h k)) ks))" by simp
  also have "\<dots> = wrap64 (h k + sum_list (map (\<lambda>k. wrap64 (h k)) ks))"
    by (rule wrap64_idem_add)
  also have "\<dots> = wrap64 (h k + wrap64 (sum_list (map (\<lambda>k. wrap64 (h k)) ks)))"
    by (simp only: wrap64_add_wrap)
  also have "\<dots> = wrap64 (h k + wrap64 (sum_list (map h ks)))" by (simp only: Cons.IH)
  also have "\<dots> = wrap64 (h k + sum_list (map h ks))" by (rule wrap64_add_wrap)
  finally show ?case by simp
qed

lemma series_sum_float: "series_sum False vs = sum_list (map (\<lambda>v. if v = NaN then 0 else v) vs)"
  by (simp add: series_sum_def number_sum_def float_sum_sum_list sum_list_dropna)

lemma series_sum_int: "series_sum True vs = Fin (of_int (wrap64 (sum_list (map int_of vs))))"
  by (simp add: series_sum_def number_sum_def int64_sum_wrap sum_int_of_dropna)

lemma groupby_sum_partition:
  "number_sum int64 (map snd (groupby_sum int64 kvs)) =
     series_sum int64 (map snd (group_rows kvs))"
proof -
  let ?live = "group_rows kvs"
  let ?ks = "sort_key (map cell_code) (remdups (map fst ?live))"
  have d: "distinct ?ks" and sub: "fst ` set ?live \<subseteq> set ?ks" by simp_all
  have gs: "map snd (groupby_sum int64 kvs) =
      map (\<lambda>k. series_sum int64 (map snd (filter (\<lambda>kv. fst kv = k) ?live))) ?ks"
    by (simp add: groupby_sum_def group_sum_def Let_def comp_def)
  show ?thesis
  proof (cases int64)
    case False
    let ?f = "\<lambda>kv :: cell list \<times> number. if snd kv = NaN then 0 else snd kv"
    have "number_sum int64 (map snd (groupby_sum int64 kvs)) =
        number_sum int64
          (map (\<lambda>k. series_sum int64 (map snd (filter (\<lambda>kv. fst kv = k) ?live))) ?ks)"
      by (simp only: gs)
    also have "\<dots> =
        sum_list (map (\<lambda>k. sum_list (map ?f (filter (\<lambda>kv. fst kv = k) ?live))) ?ks)"
      using False by (simp add: number_sum_def float_sum_sum_list series_sum_float comp_def)
    also have "\<dots> = sum_list (map ?f ?live)" using d sub by (rule sum_by_key)
    also have "\<dots> = series_sum int64 (map snd ?live)"
      using False by (simp add: series_sum_float comp_def)
    finally show ?thesis .
  next
    case True
    let ?f = "\<lambda>kv :: cell list \<times> number. int_of (snd kv)"
    let ?h = "\<lambda>k. sum_list (map ?f (filter (\<lambda>kv. fst kv = k) ?live))"
    have "number_sum int64 (map snd (groupby_sum int64 kvs)) =
        number_sum int64
          (map (\<lambda>k. series_sum int64 (map snd (filter (\<lambda>kv. fst kv = k) ?live))) ?ks)"
      by (simp only: gs)
    also have "\<dots> = Fin (of_int (wrap64 (sum_list (map (\<lambda>k. wrap64 (?h k)) ?ks))))"
      using True by (simp add: number_sum_def int64_sum_wrap series_sum_int comp_def)
    also have "\<dots> = Fin (of_int (wrap64 (sum_list (map ?h ?ks))))"
      by (simp only: wrap64_sum_wrap)
    also have "sum_list (map ?h ?ks) = sum_list (map ?f ?live)" using d sub by (rule sum_by_key)
    also have "Fin (of_int (wrap64 (sum_list (map ?f ?live)))) = series_sum int64 (map snd ?live)"
      using True by (simp add: series_sum_int comp_def)
    finally show ?thesis .
  qed
qed

lemma column_numbers_keyed_rows:
  "column_numbers data value_col = map snd (keyed_rows data group_cols value_col)"
  by (auto simp: column_numbers_def column_cells_def keyed_rows_def metric_def split: sum.splits)

lemmas group_eval_defs = is_agg_def groupby_sum_def group_rows_def group_sum_def keyed_rows_def
  row_key_def head_def less_eq_number_def

lemma null_region_agg:
  "is_agg null_region_data [''region''] ''sales'' [([Text ''A''], Fin 15)] [([Text ''A''], Fin 15)]"
  by (simp add: null_region_data_def group_eval_defs eval_defs)

lemma null_region_kpis:
  "kpis null_region_data ''sales'' (body null_region_data) =
     Inr \<lparr>total = Fin 35, mean = Fin (35 / 3), latest = Fin 5, prev = Fin 20,
          delta = Fin (- 15)\<rparr>"
  by (simp add: null_region_data_def eval_defs)

subsection \<open>Rows with a missing grouping value\<close>

text \<open>
  Claim C10: rows with a missing value in a grouping column are left out of the ranking.
  Every group of the ranking has a key without a missing value and its sum is the sum of
  the metric over the rows with exactly that key, so a row with a missing key cell is in
  no group; the sums of all groups add up, in the arithmetic of the column, to the metric
  summed over the rows without a missing key cell; and the KPI \<open>total\<close> is the metric
  summed over all rows, those rows included.
\<close>

theorem null_key_rows_in_no_group:
  assumes "is_agg data group_cols value_col ordered agg"
  shows "(\<forall>g \<in> set agg. Null \<notin> set (fst g) \<and>
            snd g = series_sum (int64_column data value_col)
                      (map snd (filter (\<lambda>kv. fst kv = fst g)
                                   (keyed_rows data group_cols value_col)))) \<and>
         number_sum (int64_column data value_col) (map snd ordered) =
           series_sum (int64_column data value_col)
             (map snd (filter (\<lambda>kv. Null \<notin> set (fst kv))
                          (keyed_rows data group_cols value_col))) \<and>
         (kpis data value_col sorted_data = Inr k \<longrightarrow>
            total k = series_sum (int64_column data value_col)
                        (map snd (keyed_rows data group_cols value_col)))"
proof -
  let ?kvs = "keyed_rows data group_cols value_col"
  let ?i = "int64_column data value_col"
  have a: "Null \<notin> set (fst g) \<and>
      snd g = series_sum ?i (map snd (filter (\<lambda>kv. fst kv = fst g) ?kvs))"
    if "g \<in> set agg" for g
  proof -
    from assms have "agg = take 10 ordered" by (simp add: is_agg_def head_def)
    with that have "g \<in> set ordered" by (auto dest: in_set_takeD)
    then have "(fst g, snd g) \<in> set (groupby_sum ?i ?kvs)" using is_agg_set [OF assms] by simp
    from groupby_sum_member [OF this] show ?thesis by (simp add: group_sum_def)
  qed
  from assms have ms: "mset ordered = mset (groupby_sum ?i ?kvs)"
    by (simp add: is_agg_def sort_values_result_def)
  have "number_sum ?i (map snd ordered) = number_sum ?i (map snd (groupby_sum ?i ?kvs))"
  proof (cases ?i)
    case True
    from ms have "mset (map (\<lambda>g. int_of (snd g)) ordered) =
        mset (map (\<lambda>g. int_of (snd g)) (groupby_sum ?i ?kvs))" by (metis mset_map)
    then have "sum_list (map (\<lambda>g. int_of (snd g)) ordered) =
        sum_list (map (\<lambda>g. int_of (snd g)) (groupby_sum ?i ?kvs))" by (metis sum_mset_sum_list)
    with True show ?thesis by (simp add: number_sum_def int64_sum_wrap comp_def)
  next
    case False
    from ms have "mset (map snd ordered) = mset (map snd (groupby_sum ?i ?kvs))" by (metis mset_map)
    then have "sum_list (map snd ordered) = sum_list (map snd (groupby_sum ?i ?kvs))"
      by (metis sum_mset_sum_list)
    with False show ?thesis by (simp add: number_sum_def float_sum_sum_list)
  qed
  then have b: "number_sum ?i (map snd ordered) =
      series_sum ?i (map snd (filter (\<lambda>kv. Null \<notin> set (fst kv)) ?kvs))"
    by (simp add: groupby_sum_partition group_rows_def)
  have c: "total k = series_sum ?i (map snd ?kvs)" if "kpis data value_col sorted_data = Inr k"
    using kpis_Inr(3) [OF that] column_numbers_keyed_rows [of data value_col group_cols] by simp
  from a b c show ?thesis by blast
qed

theorem null_key_rows_in_no_group_witness:
  "is_agg null_region_data [''region''] ''sales'' [([Text ''A''], Fin 15)] [([Text ''A''], Fin 15)] \<and>
   kpis null_region_data ''sales'' (body null_region_data) =
     Inr \<lparr>total = Fin 35, mean = Fin (35 / 3), latest = Fin 5, prev = Fin 20,
          delta = Fin (- 15)\<rparr> \<and>
   map fst (keyed_rows null_region_data [''region''] ''sales'') = [[Text ''A''], [Null], [Text ''A'']] \<and>
   series_sum (int64_column null_region_data ''sales'')
     (map snd (filter (\<lambda>kv. Null \<notin> set (fst kv))
                 (keyed_rows null_region_data [''region''] ''sales''))) = Fin 15 \<and>
   series_sum (int64_column null_region_data ''sales'')
     (map snd (keyed_rows null_region_data [''region''] ''sales'')) = Fin 35"
proof -
  note t = null_key_rows_in_no_group [OF null_region_agg, of "body null_region_data"
      "\<lparr>total = Fin 35, mean = Fin (35 / 3), latest = Fin 5, prev = Fin 20, delta = Fin (- 15)\<rparr>"]
  have k: "map fst (keyed_rows null_region_data [''region''] ''sales'') =
      [[Text ''A''], [Null], [Text ''A'']]"
    by (simp add: null_region_data_def keyed_rows_def row_key_def getitem_def)
  from t have "number_sum (int64_column null_region_data ''sales'') (map snd [([Text ''A''], Fin 15)]) =
      series_sum (int64_column null_region_data ''sales'')
        (map snd (filter (\<lambda>kv. Null \<notin> set (fst kv))
                    (keyed_rows null_region_data [''region''] ''sales'')))"
    by (rule conjunct1 [OF conjunct2])
  moreover have "number_sum (int64_column null_region_data ''sales'') (map snd [([Text ''A''], Fin 15)]) = Fin 15"
    by (simp add: null_region_data_def eval_defs)
  ultimately have b: "series_sum (int64_column null_region_data ''sales'')
     (map snd (filter (\<lambda>kv. Null \<notin> set (fst kv))
                 (keyed_rows null_region_data [''region''] ''sales''))) = Fin 15" by simp
  from t null_region_kpis have c: "series_sum (int64_column null_region_data ''sales'')
     (map snd (keyed_rows null_region_data [''region''] ''sales'')) = Fin 35" by simp
  from null_region_agg null_region_kpis k b c show ?thesis by (intro conjI)
qed

lemma keyed_rows_keys:
  "fst ` set (keyed_rows data group_cols value_col) =
     row_key (columns data) group_cols ` set (body data)"
  by (force simp: keyed_rows_def)

lemma row_key_eq_iff:
  "row_key cols group_cols r = row_key cols group_cols r' \<longleftrightarrow>
     (\<forall>c \<in> set group_cols. row_key cols [c] r = row_key cols [c] r')"
  by (induction group_cols) (auto simp: row_key_def)

lemma scenario_agg:
  "is_agg scenario_data [''region''] ''sales''
     [([Text ''B''], Fin 20), ([Text ''A''], Fin 15)] [([Text ''B''], Fin 20), ([Text ''A''], Fin 15)]"
  by (simp add: scenario_data_def group_eval_defs eval_defs)

lemma eleven_agg:
  "is_agg eleven_regions [''region''] ''sales'' eleven_ordered (take 10 eleven_ordered)"
  by (simp add: eleven_regions_def eleven_ordered_def group_eval_defs eval_defs)

subsection \<open>How the ranking groups\<close>

text \<open>
  Claim C1, as stated: the ranking groups the rows by the value of the first grouping
  column only. This fails with two grouping columns: \<open>groupby(group_cols)\<close> groups by
  all of them, so two rows of one region and two cities are two groups, where grouping by
  the first column alone gives one group with the sum 30.
\<close>

theorem first_column_grouping_counterexample:
  "is_agg two_dims [''region'', ''city''] ''sales''
     [([Text ''A'', Text ''Y''], Fin 20), ([Text ''A'', Text ''X''], Fin 10)]
     [([Text ''A'', Text ''Y''], Fin 20), ([Text ''A'', Text ''X''], Fin 10)] \<and>
   groupby_sum (int64_column two_dims ''sales'')
     (keyed_rows two_dims [hd [''region'', ''city'']] ''sales'') = [([Text ''A''], Fin 30)]"
  by (simp add: two_dims_def group_eval_defs eval_defs)

text \<open>
  Claim C1, amended: the ranking is built by grouping the rows by equality of their values
  in all the selected grouping columns (two rows are in one group exactly when they agree
  on every selected column; with one selected column that is the first column), leaving
  out rows with a missing value in one of them, and summing the metric within each group:
  the groups are distinct, their keys are the keys of the rows without a missing value,
  and each sum is the metric summed over the rows of that key. The ranking is the first
  ten of the ordered groups.
\<close>

theorem ranking_groups_by_all_columns:
  assumes "is_agg data group_cols value_col ordered agg"
  shows "distinct (map fst ordered) \<and> agg = take 10 ordered \<and>
         fst ` set ordered =
           {k \<in> row_key (columns data) group_cols ` set (body data). Null \<notin> set k} \<and>
         (\<forall>g \<in> set ordered.
            snd g = series_sum (int64_column data value_col)
                      (map snd (filter (\<lambda>kv. fst kv = fst g)
                                   (keyed_rows data group_cols value_col)))) \<and>
         (\<forall>r r'. row_key (columns data) group_cols r = row_key (columns data) group_cols r' \<longleftrightarrow>
            (\<forall>c \<in> set group_cols. row_key (columns data) [c] r = row_key (columns data) [c] r'))"
proof -
  let ?kvs = "keyed_rows data group_cols value_col"
  let ?i = "int64_column data value_col"
  have a: "distinct (map fst ordered)" using assms by (rule is_agg_distinct)
  have b: "agg = take 10 ordered" using assms by (simp add: is_agg_def head_def)
  have c: "fst ` set ordered = {k \<in> row_key (columns data) group_cols ` set (body data). Null \<notin> set k}"
    by (simp only: is_agg_set [OF assms] groupby_sum_key_set keyed_rows_keys)
  have d: "snd g = series_sum ?i (map snd (filter (\<lambda>kv. fst kv = fst g) ?kvs))"
    if "g \<in> set ordered" for g
  proof -
    from that have "(fst g, snd g) \<in> set (groupby_sum ?i ?kvs)" using is_agg_set [OF assms] by simp
    from groupby_sum_member [OF this] show ?thesis by (simp add: group_sum_def)
  qed
  show ?thesis
  proof (intro conjI)
    show "distinct (map fst ordered)" by (rule a)
    show "agg = take 10 ordered" by (rule b)
    show "fst ` set ordered = {k \<in> row_key (columns data) group_cols ` set (body data). Null \<notin> set k}"
      by (rule c)
    show "\<forall>g \<in> set ordered. snd g = series_sum ?i (map snd (filter (\<lambda>kv. fst kv = fst g) ?kvs))"
      using d by blast
    show "\<forall>r r'. row_key (columns data) group_cols r = row_key (columns data) group_cols r' \<longleftrightarrow>
            (\<forall>c \<in> set group_cols. row_key (columns data) [c] r = row_key (columns data) [c] r')"
      by (intro allI) (rule row_key_eq_iff)
  qed
qed

theorem ranking_groups_by_all_columns_witness:
  "is_agg scenario_data [''region''] ''sales''
     [([Text ''B''], Fin 20), ([Text ''A''], Fin 15)] [([Text ''B''], Fin 20), ([Text ''A''], Fin 15)] \<and>
   {k \<in> row_key (columns scenario_data) [''region''] ` set (body scenario_data). Null \<notin> set k} =
     {[Text ''B''], [Text ''A'']} \<and>
   series_sum (int64_column scenario_data ''sales'')
     (map snd (filter (\<lambda>kv. fst kv = [Text ''A''])
                 (keyed_rows scenario_data [''region''] ''sales''))) = Fin 15 \<and>
   series_sum (int64_column scenario_data ''sales'')
     (map snd (filter (\<lambda>kv. fst kv = [Text ''B''])
                 (keyed_rows scenario_data [''region''] ''sales''))) = Fin 20"
proof -
  note t = ranking_groups_by_all_columns [OF scenario_agg]
  from t have c: "fst ` set [([Text ''B''], Fin 20), ([Text ''A''], Fin 15)] =
      {k \<in> row_key (columns scenario_data) [''region''] ` set (body scenario_data). Null \<notin> set k}"
    by (rule conjunct1 [OF conjunct2 [OF conjunct2]])
  from t have d: "\<forall>g \<in> set [([Text ''B''], Fin 20), ([Text ''A''], Fin 15)].
      snd g = series_sum (int64_column scenario_data ''sales'')
                (map snd (filter (\<lambda>kv. fst kv = fst g)
                            (keyed_rows scenario_data [''region''] ''sales'')))"
    by (rule conjunct1 [OF conjunct2 [OF conjunct2 [OF conjunct2]]])
  from d have e: "series_sum (int64_column scenario_data ''sales'')
     (map snd (filter (\<lambda>kv. fst kv = [Text ''A''])
                 (keyed_rows scenario_data [''region''] ''sales''))) = Fin 15"
    "series_sum (int64_column scenario_data ''sales'')
     (map snd (filter (\<lambda>kv. fst kv = [Text ''B''])
                 (keyed_rows scenario_data [''region''] ''sales''))) = Fin 20"
    by simp_all
  from c have c': "{k \<in> row_key (columns scenario_data) [''region''] ` set (body scenario_data). Null \<notin> set k} =
     {[Text ''B''], [Text ''A'']}" by simp
  from scenario_agg c' e show ?thesis by (intro conjI)
qed

subsection \<open>Size and order of the ranking\<close>

text \<open>
  Claim C3, as stated: at most ten rows, sums non-increasing, and groups of equal sum in
  the order of their first appearance in the table. The last part fails: \<open>groupby\<close>
  lists the groups by key, not by appearance, and the descending sort keeps that order for
  equal sums when it is stable and promises none when it is not. With region B before
  region A in the table and equal sums, A comes before B.
\<close>

theorem tie_order_counterexample:
  "is_agg tie_data [''region''] ''sales''
     [([Text ''A''], Fin 10), ([Text ''B''], Fin 10)] [([Text ''A''], Fin 10), ([Text ''B''], Fin 10)] \<and>
   stable_descending
     (groupby_sum (int64_column tie_data ''sales'') (keyed_rows tie_data [''region''] ''sales'')) =
     [([Text ''A''], Fin 10), ([Text ''B''], Fin 10)] \<and>
   first_appearance (map fst (keyed_rows tie_data [''region''] ''sales'')) [Text ''B''] <
   first_appearance (map fst (keyed_rows tie_data [''region''] ''sales'')) [Text ''A'']"
  by (simp add: tie_data_def group_eval_defs eval_defs first_appearance_def stable_descending_def)

text \<open>
  Claim C3, amended: the ranking has at most ten rows, its sums are non-increasing, its
  groups are distinct, and no group left out has a greater sum than a group kept. (The
  order of groups of equal sum is not fixed.)
\<close>

theorem ranking_top10_sorted:
  assumes "is_agg data group_cols value_col ordered agg"
  shows "length agg \<le> 10 \<and> sorted_wrt (\<lambda>a b. snd b \<le> snd a) agg \<and> distinct (map fst agg) \<and>
         (\<forall>x \<in> set agg. \<forall>y \<in> set (drop 10 ordered). snd y \<le> snd x)"
proof -
  from assms have agg: "agg = take 10 ordered" and
    srt: "sorted_wrt (\<lambda>a b. snd b \<le> snd a) ordered"
    by (simp_all add: is_agg_def head_def sort_values_result_def)
  have "sorted_wrt (\<lambda>a b. snd b \<le> snd a) (take 10 ordered @ drop 10 ordered)" using srt by simp
  then have s: "sorted_wrt (\<lambda>a b. snd b \<le> snd a) (take 10 ordered)" and
    t: "\<forall>x \<in> set (take 10 ordered). \<forall>y \<in> set (drop 10 ordered). snd y \<le> snd x"
    unfolding sorted_wrt_append by blast+
  have d: "distinct (map fst (take 10 ordered))"
    using is_agg_distinct [OF assms] by (simp add: distinct_take flip: take_map)
  from agg s t d show ?thesis by simp
qed

theorem ranking_top10_sorted_witness:
  "is_agg eleven_regions [''region''] ''sales'' eleven_ordered (take 10 eleven_ordered) \<and>
   length eleven_ordered = 11 \<and> length (take 10 eleven_ordered) = 10 \<and>
   drop 10 eleven_ordered = [([Text ''a''], Fin 1)] \<and>
   sorted_wrt (\<lambda>a b. snd b \<le> snd a) (take 10 eleven_ordered)"
  using ranking_top10_sorted [OF eleven_agg] eleven_agg
  by (simp add: eleven_ordered_def)

subsection \<open>Incomplete SQL inputs\<close>

text \<open>
  Claim C8, as stated: with a network driver, when any of user, password, host, port and
  database name is empty or the query is empty, nothing is called and nothing is raised.
  This fails when the five parameters are given and only the query is empty: line 48
  holds and \<open>create_engine\<close> is called before the query is looked at, and what it raises
  (here on a port that is no number) is raised.
\<close>

theorem sql_empty_query_counterexample:
  "db_type sql_missing_query \<noteq> ''sqlite'' \<and> query sql_missing_query = [] \<and>
   sql_source strict_engine no_table sql_missing_query =
     ([CreateEngine ''postgresql://u:p@localhost:abc/d''], Inl EngineError)"
  by (simp add: sql_missing_query_def strict_engine_def sql_source_def sql_engine_def network_url_def)

text \<open>
  Claim C8, amended: with a network driver, when any of user, password, host, port and
  database name is empty, no library call is made, nothing is raised, no table is loaded
  and the placeholder is shown, whatever the query. When the five are given and only the
  query is empty, \<open>create_engine\<close> is called once with the assembled URL, no query is
  executed, and no table is loaded unless \<open>create_engine\<close> itself raises.
\<close>

theorem sql_incomplete_inputs:
  assumes "db_type i \<noteq> ''sqlite''"
  shows "(db_user i = [] \<or> db_pass i = [] \<or> db_host i = [] \<or> db_port i = [] \<or> db_name i = [] \<longrightarrow>
            sql_source create_engine read_sql_query i = ([], Inr None) \<and>
            render None = AwaitingInput) \<and>
         (db_user i \<noteq> [] \<and> db_pass i \<noteq> [] \<and> db_host i \<noteq> [] \<and> db_port i \<noteq> [] \<and> db_name i \<noteq> [] \<and>
          query i = [] \<longrightarrow>
            sql_source create_engine read_sql_query i =
              ([CreateEngine (network_url i)],
               map_sum id (\<lambda>engine. None) (create_engine (network_url i))))"
  using assms
  by (cases "create_engine (network_url i)")
     (auto simp: sql_source_def sql_engine_def render_def)

theorem sql_incomplete_inputs_witness:
  "db_type sql_missing_password \<noteq> ''sqlite'' \<and> db_pass sql_missing_password = [] \<and>
   sql_source strict_engine no_table sql_missing_password = ([], Inr None) \<and>
   db_type sql_missing_query \<noteq> ''sqlite'' \<and> query sql_missing_query = [] \<and>
   db_user sql_missing_query \<noteq> [] \<and> db_pass sql_missing_query \<noteq> [] \<and>
   db_host sql_missing_query \<noteq> [] \<and> db_port sql_missing_query \<noteq> [] \<and>
   db_name sql_missing_query \<noteq> [] \<and>
   sql_source strict_engine no_table sql_missing_query =
     ([CreateEngine (network_url sql_missing_query)],
      map_sum id (\<lambda>engine. None) (strict_engine (network_url sql_missing_query)))"
proof -
  have a: "db_type sql_missing_password \<noteq> ''sqlite''" by (simp add: sql_missing_password_def)
  have b: "db_type sql_missing_query \<noteq> ''sqlite''" by (simp add: sql_missing_query_def)
  from sql_incomplete_inputs [OF a, of strict_engine no_table]
       sql_incomplete_inputs [OF b, of strict_engine no_table]
  show ?thesis by (simp add: sql_missing_password_def sql_missing_query_def)
qed

subsection \<open>Memoised coercion\<close>

text \<open>
  Claim C4: the table the aggregator uses is the coercion of the current table. The code
  breaks it: \<open>get_data\<close> takes no argument, so its one cache entry is keyed by nothing
  that changes. After a first run on one upload, a run on another upload gets the coerced
  first upload back, not the coercion of the table it has now.
\<close>

theorem get_data_stale_after_first_run:
  "get_data iso_day None first_upload ''date'' = Inr (first_coerced, Some first_coerced) \<and>
   get_data iso_day (Some first_coerced) second_upload ''date'' = Inr (first_coerced, Some first_coerced) \<and>
   get_data_body iso_day second_upload ''date'' = Inr second_coerced \<and>
   first_coerced \<noteq> second_coerced"
  by (simp add: get_data_def get_data_body_def first_upload_def second_upload_def first_coerced_def
      second_coerced_def iso_day_def getitem_def setitem_def)


subsection \<open>Facts about the time order\<close>

lemma time_le_code: "time_le a b \<longleftrightarrow> time_code a \<le> time_code b"
  by (cases a; cases b) simp_all

lemma time_code_inj: "inj time_code"
proof (rule injI)
  fix a b assume "time_code a = time_code b"
  then show "a = b" by (cases a; cases b) simp_all
qed

lemma time_le_refl: "time_le a a"
  by (cases a) simp_all

lemma sorted_wrt_last_max:
  assumes "sorted_wrt R xs" and "xs \<noteq> []" and "\<And>x. R x x"
  shows "\<forall>x \<in> set xs. R x (last xs)"
proof -
  from assms(2) have "xs = butlast xs @ [last xs]" by simp
  then have "sorted_wrt R (butlast xs @ [last xs])" using assms(1) by simp
  then have "\<forall>x \<in> set (butlast xs). R x (last xs)" by (simp add: sorted_wrt_append)
  moreover have "set xs = insert (last xs) (set (butlast xs))"
    using \<open>xs = butlast xs @ [last xs]\<close> by (metis Un_insert_right append_Nil2 list.simps(15) set_append)
  ultimately show ?thesis using assms(3) by auto
qed

lemma sorted_wrt_butlast: "sorted_wrt R xs \<Longrightarrow> sorted_wrt R (butlast xs)"
  by (simp add: butlast_conv_take sorted_wrt_take)

lemma filter_eq_single: "distinct xs \<Longrightarrow> k \<in> set xs \<Longrightarrow> filter (\<lambda>x. k = x) xs = [k]"
  by (induction xs) (auto simp: filter_empty_conv)

lemma filter_key_single:
  assumes "distinct (map f xs)" and "k \<in> set xs"
  shows "filter (\<lambda>x. f k = f x) xs = [k]"
proof -
  from assms(1) have d: "distinct xs" and i: "inj_on f (set xs)" by (simp_all add: distinct_map)
  have "filter (\<lambda>x. f k = f x) xs = filter (\<lambda>x. k = x) xs"
    by (rule filter_cong) (use i assms(2) in \<open>auto dest: inj_onD\<close>)
  with d assms(2) show ?thesis by (simp add: filter_eq_single)
qed

lemma sorted_distinct_keys_unique:
  fixes f :: "'a \<Rightarrow> 'b::linorder"
  assumes "mset ys = mset xs" and "sorted (map f ys)" and "distinct (map f xs)"
  shows "sort_key f xs = ys"
proof (rule properties_for_sort_key)
  show "mset ys = mset xs" by (rule assms(1))
  show "sorted (map f ys)" by (rule assms(2))
  fix k assume k: "k \<in> set ys"
  from assms(1) have "mset (map f ys) = mset (map f xs)" by (metis mset_map)
  then have dy: "distinct (map f ys)" using assms(3) mset_eq_imp_distinct_iff by blast
  from k assms(1) have kx: "k \<in> set xs" by (metis mset_eq_setD)
  show "filter (\<lambda>x. f k = f x) ys = filter (\<lambda>x. f k = f x) xs"
    by (simp only: filter_key_single [OF dy k] filter_key_single [OF assms(3) kx])
qed

lemma kpis_latest:
  assumes "kpis data value_col sorted_data = Inr k" and "iloc sorted_data (- 1) = Inr r"
  shows "Inr (latest k) = metric (columns data) value_col r"
  using kpis_Inr(6) [OF assms(1)] assms(2) by auto

lemma kpis_prev:
  assumes "kpis data value_col sorted_data = Inr k" and "1 < length sorted_data"
    and "iloc sorted_data (- 1) = Inr r1" and "iloc sorted_data (- 2) = Inr r2"
  shows "Inr (prev k) = metric (columns data) value_col r2"
  using kpis_Inr(7) [OF assms(1,2)] assms(4) by auto

lemma last_butlast_nth:
  assumes "1 < length xs"
  shows "last (butlast xs) = xs ! (length xs - 2)"
proof (cases xs rule: rev_cases)
  case Nil
  with assms show ?thesis by simp
next
  case (snoc ys z)
  show ?thesis
  proof (cases ys rule: rev_cases)
    case Nil
    with snoc assms show ?thesis by simp
  next
    case inner: (snoc ws y)
    have "xs = ws @ [y, z]" using snoc inner by simp
    then show ?thesis by (simp add: nth_append butlast_append)
  qed
qed

lemma scenario_sorted: "is_sorted_data scenario_data ''date'' (body scenario_data)"
  by (simp add: scenario_data_def eval_defs)

lemma scenario_nargsort: "nargsort [Some 1, Some 2, Some 3] = Some [0, 1, 2]"
  by code_simp

lemma scenario_sort_values: "sort_values scenario_data ''date'' = Some (body scenario_data)"
proof -
  have "map (row_time (columns scenario_data) ''date'') (body scenario_data) =
      [Some 1, Some 2, Some 3]"
    by (simp add: scenario_data_def row_time_def getitem_def)
  then show ?thesis
    unfolding sort_values_def by (simp add: scenario_nargsort) (simp add: scenario_data_def)
qed

lemma tied_latest_keys:
  "map (row_time (columns tied_latest) ''date'') (body tied_latest) =
     [Some 2, Some 2, Some 1, Some 1, Some 1, Some 1, Some 1, Some 1, Some 1, Some 1, Some 1,
      Some 1, Some 1, Some 1, Some 1, Some 1, Some 1, Some 1]"
  by (simp add: tied_latest_def row_time_def getitem_def)

lemma tied_latest_nargsort:
  "nargsort [Some 2, Some 2, Some 1, Some 1, Some 1, Some 1, Some 1, Some 1, Some 1, Some 1, Some 1,
      Some 1, Some 1, Some 1, Some 1, Some 1, Some 1, Some 1] =
     Some [8, 15, 14, 13, 12, 11, 10, 9, 17, 7, 6, 5, 4, 3, 2, 16, 1, 0]"
  by code_simp

lemma tied_latest_sort_values: "sort_values tied_latest ''date'' = Some tied_latest_sorted"
  unfolding sort_values_def tied_latest_keys tied_latest_nargsort
  by (simp add: tied_latest_def tied_latest_sorted_def)

lemma tied_latest_is_sorted: "is_sorted_data tied_latest ''date'' tied_latest_sorted"
  by (simp add: tied_latest_def tied_latest_sorted_def is_sorted_data_def sort_values_result_def
      row_time_def getitem_def)

lemma tied_latest_kpis:
  "kpis tied_latest ''sales'' tied_latest_sorted =
     Inr \<lparr>total = Fin 316, mean = Fin (316 / 18), latest = Fin 100, prev = Fin 200,
          delta = Fin (- 100)\<rparr>"
  by (simp add: tied_latest_def tied_latest_sorted_def eval_defs)

lemma tied_latest_stable:
  "spec_stable_sort tied_latest ''date'' = drop 2 (body tied_latest) @ take 2 (body tied_latest)"
  by (simp add: tied_latest_def spec_stable_sort_def row_time_def getitem_def)

lemma tied_latest_stable_kpis:
  "kpis tied_latest ''sales'' (spec_stable_sort tied_latest ''date'') =
     Inr \<lparr>total = Fin 316, mean = Fin (316 / 18), latest = Fin 200, prev = Fin 100,
          delta = Fin 100\<rparr>"
  unfolding tied_latest_stable by (simp add: tied_latest_def eval_defs)

subsection \<open>Latest and previous\<close>

text \<open>
  Claim C2, as stated: \<open>latest\<close> and \<open>previous\<close> are the metric values of the last
  and the second-to-last row of the stable ascending sort by time. The code sorts with
  \<open>sort_values(date_col)\<close> and its default \<open>kind='quicksort'\<close>, whose partition
  step swaps rows of equal key. On eighteen rows of which the first two share the latest
  day and the others an earlier one, the partition moves the first row behind the second:
  \<open>sort_values\<close> ends with the second row and then the first, so \<open>latest = 100\<close>
  and \<open>prev = 200\<close>, where the stable order gives \<open>latest = 200\<close> and
  \<open>prev = 100\<close>.
\<close>

theorem tied_latest_order_counterexample:
  "sort_values tied_latest ''date'' = Some tied_latest_sorted \<and>
   is_sorted_data tied_latest ''date'' tied_latest_sorted \<and>
   kpis tied_latest ''sales'' tied_latest_sorted =
     Inr \<lparr>total = Fin 316, mean = Fin (316 / 18), latest = Fin 100, prev = Fin 200,
          delta = Fin (- 100)\<rparr> \<and>
   kpis tied_latest ''sales'' (spec_stable_sort tied_latest ''date'') =
     Inr \<lparr>total = Fin 316, mean = Fin (316 / 18), latest = Fin 200, prev = Fin 100,
          delta = Fin 100\<rparr>"
  using tied_latest_sort_values tied_latest_is_sorted tied_latest_kpis tied_latest_stable_kpis
  by (intro conjI)

text \<open>
  Claim C2, amended: for every table with at least one row, \<open>latest\<close> is the metric
  value of the last row and, with more than one row, \<open>previous\<close> that of the
  second-to-last row of the table ordered ascending by the coerced time value, missing
  times last. The last row is a row of the table with a greatest time value, the
  second-to-last one with a greatest time value among the others. When no two rows have
  the same time value the order is the stable order of the claim; among rows of equal time
  value it is the order the quicksort leaves, which need not be the original one.
\<close>

theorem latest_prev_by_time_order:
  assumes "body data \<noteq> []"
    and "is_sorted_data data date_col sorted_data"
    and "kpis data value_col sorted_data = Inr k"
  shows "Inr (latest k) = metric (columns data) value_col (last sorted_data) \<and>
         last sorted_data \<in> set (body data) \<and>
         (\<forall>r \<in> set (body data).
            time_le (row_time (columns data) date_col r)
                    (row_time (columns data) date_col (last sorted_data))) \<and>
         (1 < length (body data) \<longrightarrow>
            Inr (prev k) = metric (columns data) value_col (last (butlast sorted_data)) \<and>
            (\<forall>r \<in> set (butlast sorted_data).
               time_le (row_time (columns data) date_col r)
                       (row_time (columns data) date_col (last (butlast sorted_data))))) \<and>
         (distinct (map (row_time (columns data) date_col) (body data)) \<longrightarrow>
            sorted_data = spec_stable_sort data date_col)"
proof -
  let ?key = "row_time (columns data) date_col"
  let ?R = "\<lambda>a b. time_le (?key a) (?key b)"
  from assms(2) have ms: "mset sorted_data = mset (body data)" and srt: "sorted_wrt ?R sorted_data"
    by (simp_all add: is_sorted_data_def sort_values_result_def)
  have len: "length sorted_data = length (body data)" using assms(2) by (rule sorted_data_length)
  with assms(1) have ne: "sorted_data \<noteq> []" by auto
  have st: "set sorted_data = set (body data)" using assms(2) by (rule sorted_data_set)
  have l: "iloc sorted_data (- 1) = Inr (last sorted_data)" using ne by (rule iloc_last)
  have a: "Inr (latest k) = metric (columns data) value_col (last sorted_data)"
    using assms(3) l by (rule kpis_latest)
  have "last sorted_data \<in> set sorted_data" using ne by (rule last_in_set)
  then have b: "last sorted_data \<in> set (body data)" by (simp only: st)
  have refl: "?R x x" for x by (rule time_le_refl)
  have "\<forall>r \<in> set sorted_data. ?R r (last sorted_data)"
    using srt ne refl by (rule sorted_wrt_last_max)
  then have c: "\<forall>r \<in> set (body data). ?R r (last sorted_data)"
    by (simp only: st)
  have d: "Inr (prev k) = metric (columns data) value_col (last (butlast sorted_data)) \<and>
           (\<forall>r \<in> set (butlast sorted_data). ?R r (last (butlast sorted_data)))"
    if big: "1 < length (body data)"
  proof -
    from big len have big': "1 < length sorted_data" by simp
    have bne: "butlast sorted_data \<noteq> []"
    proof
      assume "butlast sorted_data = []"
      then have "length (butlast sorted_data) = 0" by simp
      with big' show False by simp
    qed
    have e: "iloc sorted_data (- 2) = Inr (last (butlast sorted_data))"
      using iloc_second_last [OF big'] last_butlast_nth [OF big'] by simp
    have p: "Inr (prev k) = metric (columns data) value_col (last (butlast sorted_data))"
      using assms(3) big' l e by (rule kpis_prev)
    have "sorted_wrt ?R (butlast sorted_data)" using srt by (rule sorted_wrt_butlast)
    then have "\<forall>r \<in> set (butlast sorted_data). ?R r (last (butlast sorted_data))"
      using bne refl by (rule sorted_wrt_last_max)
    with p show ?thesis by (rule conjI)
  qed
  have u: "sorted_data = spec_stable_sort data date_col"
    if dis: "distinct (map ?key (body data))"
  proof -
    let ?f = "\<lambda>r. time_code (?key r)"
    have "sorted_wrt (\<lambda>a b. ?f a \<le> ?f b) sorted_data"
      using srt by (simp only: time_le_code)
    then have "sorted (map ?f sorted_data)" by (simp only: sorted_map)
    moreover have "distinct (map ?f (body data))"
    proof -
      from dis have db: "distinct (body data)" and ik: "inj_on ?key (set (body data))"
        by (simp_all add: distinct_map)
      have "inj_on ?f (set (body data))"
      proof (rule inj_onI)
        fix x y assume "x \<in> set (body data)" "y \<in> set (body data)" "?f x = ?f y"
        then show "x = y" using ik time_code_inj by (auto dest: injD inj_onD)
      qed
      with db show ?thesis by (simp add: distinct_map)
    qed
    ultimately have "sort_key ?f (body data) = sorted_data"
      using sorted_distinct_keys_unique [of sorted_data "body data" ?f, OF ms] by blast
    then show ?thesis by (simp add: spec_stable_sort_def)
  qed
  show ?thesis
  proof (intro conjI impI)
    show "Inr (latest k) = metric (columns data) value_col (last sorted_data)" by (rule a)
    show "last sorted_data \<in> set (body data)" by (rule b)
    show "\<forall>r \<in> set (body data). ?R r (last sorted_data)" by (rule c)
    show "Inr (prev k) = metric (columns data) value_col (last (butlast sorted_data))"
      if "1 < length (body data)" using d [OF that] by (rule conjunct1)
    show "\<forall>r \<in> set (butlast sorted_data). ?R r (last (butlast sorted_data))"
      if "1 < length (body data)" using d [OF that] by (rule conjunct2)
    show "sorted_data = spec_stable_sort data date_col"
      if "distinct (map ?key (body data))" using that by (rule u)
  qed
qed

theorem latest_prev_by_time_order_witness:
  "body scenario_data \<noteq> [] \<and> sort_values scenario_data ''date'' = Some (body scenario_data) \<and>
   is_sorted_data scenario_data ''date'' (body scenario_data) \<and>
   kpis scenario_data ''sales'' (body scenario_data) =
     Inr \<lparr>total = Fin 35, mean = Fin (35 / 3), latest = Fin 5, prev = Fin 20, delta = Fin (- 15)\<rparr> \<and>
   1 < length (body scenario_data) \<and>
   distinct (map (row_time (columns scenario_data) ''date'') (body scenario_data)) \<and>
   metric (columns scenario_data) ''sales'' (last (body scenario_data)) = Inr (Fin 5) \<and>
   metric (columns scenario_data) ''sales'' (last (butlast (body scenario_data))) = Inr (Fin 20) \<and>
   body scenario_data = spec_stable_sort scenario_data ''date''"
proof -
  have a: "body scenario_data \<noteq> []" and b: "1 < length (body scenario_data)"
    by (simp_all add: scenario_data_def)
  have c: "distinct (map (row_time (columns scenario_data) ''date'') (body scenario_data))"
    by (simp add: scenario_data_def row_time_def getitem_def)
  note t = latest_prev_by_time_order [OF a scenario_sorted scenario_kpis]
  from t have "Inr (latest \<lparr>total = Fin 35, mean = Fin (35 / 3), latest = Fin 5, prev = Fin 20,
        delta = Fin (- 15)\<rparr>) = metric (columns scenario_data) ''sales'' (last (body scenario_data))"
    by (rule conjunct1)
  then have m1: "metric (columns scenario_data) ''sales'' (last (body scenario_data)) = Inr (Fin 5)"
    by simp
  from t have r: "1 < length (body scenario_data) \<longrightarrow>
      Inr (prev \<lparr>total = Fin 35, mean = Fin (35 / 3), latest = Fin 5, prev = Fin 20,
        delta = Fin (- 15)\<rparr>) = metric (columns scenario_data) ''sales'' (last (butlast (body scenario_data))) \<and>
      (\<forall>r \<in> set (butlast (body scenario_data)).
         time_le (row_time (columns scenario_data) ''date'' r)
                 (row_time (columns scenario_data) ''date'' (last (butlast (body scenario_data)))))"
    by (rule conjunct1 [OF conjunct2 [OF conjunct2 [OF conjunct2]]])
  from r b have "Inr (prev \<lparr>total = Fin 35, mean = Fin (35 / 3), latest = Fin 5, prev = Fin 20,
        delta = Fin (- 15)\<rparr>) = metric (columns scenario_data) ''sales'' (last (butlast (body scenario_data)))"
    by blast
  then have m2: "metric (columns scenario_data) ''sales'' (last (butlast (body scenario_data))) = Inr (Fin 20)"
    by simp
  from t have "distinct (map (row_time (columns scenario_data) ''date'') (body scenario_data)) \<longrightarrow>
      body scenario_data = spec_stable_sort scenario_data ''date''"
    by (rule conjunct2 [OF conjunct2 [OF conjunct2 [OF conjunct2]]])
  with c have u: "body scenario_data = spec_stable_sort scenario_data ''date''" by blast
  from a scenario_sort_values scenario_sorted scenario_kpis b c m1 m2 u show ?thesis
    by (intro conjI)
qed

end
